theory Spec2Isabelle
  imports Main "HOL-Library.AList" "HOL-Library.Char_ord" "HOL-Library.List_Lexorder"
begin

section \<open>yarn-plugin-nixify: the generator that runs after an install\<close>

text \<open>
  A shallow embedding of the default export of the generator module (the file that
  imports \<^verbatim>\<open>./nixUtils\<close> and \<^verbatim>\<open>./textUtils\<close>) and of the
  sanity checks at the head of \<^verbatim>\<open>generate\<close> in \<^verbatim>\<open>src/index.ts\<close>.

  \<^item> A JavaScript \<^verbatim>\<open>Map\<close> is an association list in insertion order, read with
    \<open>map_of\<close> and written with \<open>AList.update\<close> (an existing key keeps its place).
  \<^item> A \<^verbatim>\<open>Set<string>\<close> is a list without repetition in insertion order.
  \<^item> \<^verbatim>\<open>throw Error(msg)\<close> is the value \<open>Inl (Error msg)\<close>.
  \<^item> \<^verbatim>\<open>collectTree\<close> calls itself with no bound on the depth, so it is a
    \<^theory_text>\<open>partial_function\<close> in the option monad: \<open>None\<close> is a call that never
    returns (in the JavaScript runtime the recursion ends in a stack overflow).
  \<^item> Functions of @yarnpkg, of node and of \<^verbatim>\<open>./nixUtils\<close>, and \<^verbatim>\<open>json\<close> and
    \<^verbatim>\<open>upperCamelize\<close> of \<^verbatim>\<open>./textUtils\<close>, are fields of the record \<open>externals\<close>;
    every theorem holds for whatever they compute. Calls into them are taken to return,
    except the writes to the file system and \<^verbatim>\<open>execUtils.execvp\<close>, which can fail.
  \<^item> \<^verbatim>\<open>renderTmpl\<close> and \<^verbatim>\<open>indent\<close> of \<^verbatim>\<open>./textUtils\<close> decide what the written
    text looks like; their sources are not at hand and they are modelled from the
    specification. The template \<^verbatim>\<open>yarn-project.nix.in\<close> is at hand and is given in full.
\<close>

subsection \<open>Data\<close>

datatype error = Error string

datatype severity = Info | Warning | ReportError

datatype tmpl_value = TStr string | TBool bool

text \<open>How a call of \<^verbatim>\<open>execUtils.execvp\<close> with \<^verbatim>\<open>strict: true\<close> ends: the command
  exits with 0, having added the given paths to the Nix store; the command cannot be
  started (the error has the code \<^verbatim>\<open>ENOENT\<close>); or it fails otherwise, with a message.\<close>

datatype exec_result = ExecOk "string list" | ExecENOENT | ExecFailed string

text \<open>A resolved package: the fields of yarn's \<^verbatim>\<open>Package\<close> that the generator reads.
  \<open>dependencies\<close> lists the descriptor hash of each value of \<^verbatim>\<open>pkg.dependencies\<close>.\<close>

record package =
  name :: string
  version :: "string option"
  reference :: string
  locatorHash :: string
  dependencies :: "string list"

record project =
  cwd :: string
  storedPackages :: "(string \<times> package) list"
  storedResolutions :: "(string \<times> string) list"
  storedChecksums :: "(string \<times> string) list"
  storedBuildState :: "(string \<times> string) list"
  conditionalLocators :: "string list"
  manifest_name :: "string option"

record configuration =
  yarnPath :: string
  cacheFolder :: string
  sources :: "string list"
  nixExprPath :: string
  lockfileFilename :: string
  isolatedNixBuilds :: "string list"
  nodeLinker :: string
  pnpUnpluggedFolder :: string
  generateDefaultNix :: bool
  enableNixPreload :: bool

record cache =
  cache_cwd :: string
  getLocatorPath :: "package \<Rightarrow> string option \<Rightarrow> string list \<Rightarrow> string option"

record cache_entry =
  filename :: string
  sha512 :: string

text \<open>What the generator takes from outside its own file. \<open>devirtualizeLocator\<close> and
  \<open>parseLocator_sourceLocator\<close> give the \<^verbatim>\<open>locatorHash\<close> of the locator they build,
  the only field the generator reads of it. \<open>json\<close> takes \<open>None\<close> for \<^verbatim>\<open>null\<close>.\<close>

record externals =
  stringifyLocator :: "package \<Rightarrow> string"
  isVirtualLocator :: "package \<Rightarrow> bool"
  devirtualizeLocator :: "package \<Rightarrow> string"
  slugifyLocator :: "package \<Rightarrow> string"
  getIdentVendorPath :: "package \<Rightarrow> string"
  stringifyIdent :: "string \<Rightarrow> string"
  parseLocator_sourceLocator :: "package \<Rightarrow> string"
  ppath_relative :: "string \<Rightarrow> string \<Rightarrow> string"
  ppath_dirname :: "string \<Rightarrow> string"
  ppath_basename :: "string \<Rightarrow> string"
  ppath_join :: "string list \<Rightarrow> string"
  checksumFile :: "string \<Rightarrow> string"
  tempDir :: string
  execvp :: "string \<Rightarrow> string list \<Rightarrow> exec_result"
  json :: "string option \<Rightarrow> string"
  upperCamelize :: "string \<Rightarrow> string"
  sanitizeDerivationName :: "string \<Rightarrow> string"
  computeFixedOutputStorePath :: "string \<Rightarrow> string \<Rightarrow> string \<Rightarrow> string"
  getPnpPath_main :: "project \<Rightarrow> string"
  defaultExprTmpl :: string

text \<open>The file system and the report, as far as the generator touches them: regular
  files by path, the directories, the paths that \<^verbatim>\<open>nix-store\<close> has added to the Nix
  store (the generator only asks whether they exist), directory listings, the messages
  reported and the \<^verbatim>\<open>nix-store\<close> invocations made.\<close>

record world =
  files :: "string \<rightharpoonup> string"
  dirs :: "string list"
  store :: "string list"
  readdir :: "string \<Rightarrow> string list"
  reports :: "(severity \<times> string) list"
  execs :: "string list list"

datatype outcome = Returned world | Thrown error world

subsection \<open>JavaScript helpers\<close>

definition startsWith :: "string \<Rightarrow> string \<Rightarrow> bool" where
  "startsWith s p = (take (length p) s = p)"

text \<open>\<^verbatim>\<open>Set.prototype.add\<close> on a set of strings kept in insertion order.\<close>

definition set_add :: "string \<Rightarrow> string list \<Rightarrow> string list" where
  "set_add s out = (if s \<in> set out then out else out @ [s])"

text \<open>\<^verbatim>\<open>Array.prototype.join\<close>.\<close>

fun join :: "string \<Rightarrow> string list \<Rightarrow> string" where
  "join sep [] = []"
| "join sep [x] = x"
| "join sep (x # y # ys) = x @ sep @ join sep (y # ys)"

text \<open>A string or \<^verbatim>\<open>undefined\<close>/\<^verbatim>\<open>null\<close> used as a condition.\<close>

definition truthy :: "string option \<Rightarrow> bool" where
  "truthy v = (case v of None \<Rightarrow> False | Some s \<Rightarrow> s \<noteq> [])"

text \<open>\<^verbatim>\<open>checksum.split(`/`).pop()\<close>: what follows the last slash.\<close>

definition split_pop :: "string \<Rightarrow> string" where
  "split_pop s = rev (takeWhile (\<lambda>c. c \<noteq> CHR ''/'') (rev s))"

definition existsSync :: "world \<Rightarrow> string \<Rightarrow> bool" where
  "existsSync w p = (files w p \<noteq> None \<or> p \<in> set (dirs w) \<or> p \<in> set (store w))"

text \<open>\<^verbatim>\<open>xfs.writeFilePromise\<close>: the file is created or overwritten. The write is rejected
  when the directory of the path does not exist, and when the path is a directory; the
  messages are those of node.\<close>

definition writeFile :: "externals \<Rightarrow> string \<Rightarrow> string \<Rightarrow> world \<Rightarrow> error + world" where
  "writeFile ext p content w =
    (if ppath_dirname ext p \<notin> set (dirs w) then
       Inl (Error (''ENOENT: no such file or directory, open '' @ [CHR 0x27] @ p @ [CHR 0x27]))
     else if p \<in> set (dirs w) then
       Inl (Error (''EISDIR: illegal operation on a directory, open '' @ [CHR 0x27] @ p @ [CHR 0x27]))
     else Inr (w\<lparr>files := (files w)(p \<mapsto> content)\<rparr>))"

definition report :: "severity \<Rightarrow> string \<Rightarrow> world \<Rightarrow> world" where
  "report sev msg w = w\<lparr>reports := reports w @ [(sev, msg)]\<rparr>"

text \<open>Sequencing of computations that may throw (\<open>Some (Inl e)\<close>) or not return (\<open>None\<close>),
  and a \<^verbatim>\<open>for ... of\<close> loop whose body is such a computation.\<close>

definition and_then :: "('e + 'a) option \<Rightarrow> ('a \<Rightarrow> ('e + 'b) option) \<Rightarrow> ('e + 'b) option" where
  "and_then m k = Option.bind m (\<lambda>r. case r of Inl e \<Rightarrow> Some (Inl e) | Inr a \<Rightarrow> k a)"

primrec for_of :: "'a list \<Rightarrow> ('a \<Rightarrow> 's \<Rightarrow> ('e + 's) option) \<Rightarrow> 's \<Rightarrow> ('e + 's) option" where
  "for_of [] body s = Some (Inr s)"
| "for_of (x # xs) body s = and_then (body x s) (for_of xs body)"

lemma and_then_mono [partial_function_mono]:
  assumes "mono_option B" and "\<And>y. mono_option (\<lambda>f. C y f)"
  shows "mono_option (\<lambda>f. and_then (B f) (\<lambda>y. C y f))"
  unfolding and_then_def
proof (rule bind_mono [OF assms(1)])
  fix r :: "'c + 'd"
  show "mono_option (\<lambda>f. case r of Inl e \<Rightarrow> Some (Inl e) | Inr a \<Rightarrow> C a f)"
    by (cases r) (simp_all add: assms(2) partial_function_mono)
qed

lemma for_of_mono [partial_function_mono]:
  assumes "\<And>x s. mono_option (\<lambda>f. B f x s)"
  shows "mono_option (\<lambda>f. for_of xs (B f) s)"
proof (induction xs arbitrary: s)
  case Nil
  show ?case by (simp add: partial_function_mono)
next
  case (Cons x xs)
  show ?case by (simp, intro partial_function_mono assms Cons)
qed

subsection \<open>The cache entries\<close>

text \<open>The loop over \<^verbatim>\<open>project.storedPackages.values()\<close> that fills the map
  \<^verbatim>\<open>cacheEntries\<close>; \<open>cacheFiles\<close> is the listing of the cache folder.\<close>

definition cacheEntries_step ::
  "externals \<Rightarrow> project \<Rightarrow> cache \<Rightarrow> string list \<Rightarrow> package \<Rightarrow>
   (string \<times> cache_entry) list \<Rightarrow> (string \<times> cache_entry) list" where
  "cacheEntries_step ext proj cache cacheFiles pkg entries =
    (let checksum = map_of (storedChecksums proj) (locatorHash pkg);
         cachePath = getLocatorPath cache pkg (if truthy checksum then checksum else None)
                       (conditionalLocators proj)
     in case cachePath of
          None \<Rightarrow> entries
        | Some path \<Rightarrow>
            if path = [] then entries
            else
              let filename = ppath_basename ext path in
              if filename \<notin> set cacheFiles then entries
              else
                let locatorStr = stringifyLocator ext pkg;
                    sha512 = (case checksum of
                                None \<Rightarrow> checksumFile ext path
                              | Some c \<Rightarrow> if c = [] then checksumFile ext path else split_pop c)
                in AList.update locatorStr \<lparr>filename = filename, sha512 = sha512\<rparr> entries)"

definition cacheEntries ::
  "externals \<Rightarrow> project \<Rightarrow> cache \<Rightarrow> string list \<Rightarrow> (string \<times> cache_entry) list" where
  "cacheEntries ext proj cache cacheFiles =
     fold (cacheEntries_step ext proj cache cacheFiles) (map snd (storedPackages proj)) []"

definition cacheEntriesCode :: "externals \<Rightarrow> (string \<times> cache_entry) list \<Rightarrow> string" where
  "cacheEntriesCode ext entries =
     fold (\<lambda>(locatorStr, entry) code.
             code @ json ext (Some locatorStr) @ '' = { '' @
               join '' '' [''filename = '' @ json ext (Some (filename entry)) @ '';'',
                           ''sha512 = '' @ json ext (Some (sha512 entry)) @ '';''] @
               '' };\<newline>'')
          entries ''cacheEntries = {\<newline>''
     @ ''};''"

subsection \<open>The closure of a package\<close>

partial_function (option) collectTree ::
  "externals \<Rightarrow> project \<Rightarrow> (string \<times> cache_entry) list \<Rightarrow> package \<Rightarrow> string list \<Rightarrow>
   (error + string list) option"
where
  "collectTree ext proj entries pkg out =
    (let locatorStr = stringifyLocator ext pkg;
         out1 = (if map_of entries locatorStr \<noteq> None then set_add locatorStr out else out)
     in
     and_then
       (if isVirtualLocator ext pkg then
          (case map_of (storedPackages proj) (devirtualizeLocator ext pkg) of
             None \<Rightarrow> Some (Inl (Error ''Assertion failed: The locator should have been registered''))
           | Some devirtPkg \<Rightarrow> collectTree ext proj entries devirtPkg out1)
        else Some (Inr out1))
     (\<lambda>out2.
     and_then
       (if startsWith (reference pkg) ''patch:'' then
          (case map_of (storedPackages proj) (parseLocator_sourceLocator ext pkg) of
             None \<Rightarrow> Some (Inl (Error ''Assertion failed: The locator should have been registered''))
           | Some depatchPkg \<Rightarrow> collectTree ext proj entries depatchPkg out2)
        else Some (Inr out2))
     (\<lambda>out3.
     for_of (dependencies pkg) (\<lambda>dependency out4.
       case map_of (storedResolutions proj) dependency of
         None \<Rightarrow> Some (Inl (Error ''Assertion failed: The descriptor should have been registered''))
       | Some resolution \<Rightarrow>
          (case map_of (storedPackages proj) resolution of
             None \<Rightarrow> Some (Inl (Error ''Assertion failed: The locator should have been registered''))
           | Some depPkg \<Rightarrow> collectTree ext proj entries depPkg out4)) out3)))"

subsection \<open>The isolated builds\<close>

text \<open>The three variables the loop over \<^verbatim>\<open>project.storedBuildState.keys()\<close> fills.
  \<^verbatim>\<open>isolatedPackages\<close> is a \<^verbatim>\<open>Set<Package>\<close>: it compares objects, and the objects
  are the values of \<^verbatim>\<open>project.storedPackages\<close>, which carry their own
  \<^verbatim>\<open>locatorHash\<close>; they are compared here as records.\<close>

record isolated_state =
  isolatedPackages :: "package list"
  isolatedIntegration :: "string list"
  isolatedCode :: "string list"

definition installLocation :: "externals \<Rightarrow> configuration \<Rightarrow> project \<Rightarrow> package \<Rightarrow> string" where
  "installLocation ext cfg proj pkg =
     ppath_relative ext (cwd proj)
       (ppath_join ext [pnpUnpluggedFolder cfg, slugifyLocator ext pkg, getIdentVendorPath ext pkg])"

definition isolatedProp :: "externals \<Rightarrow> package \<Rightarrow> string" where
  "isolatedProp ext devirtPkg = ''isolated.'' @ json ext (Some (stringifyLocator ext devirtPkg))"

text \<open>The entry pushed to \<^verbatim>\<open>isolatedCode\<close>; \<open>sorted_out\<close> is
  \<^verbatim>\<open>[...collectTree(pkg)].sort()\<close>.\<close>

definition isolatedCode_entry :: "externals \<Rightarrow> package \<Rightarrow> package \<Rightarrow> string list \<Rightarrow> string" where
  "isolatedCode_entry ext pkg devirtPkg sorted_out =
    (let locators = concat (map (\<lambda>v. json ext (Some v) @ ''\<newline>'') sorted_out);
         overrideArg = ''override'' @ upperCamelize ext (name pkg) @ ''Attrs''
     in isolatedProp ext devirtPkg @ '' = optionalOverride (args.'' @ overrideArg @
          '' or null) (mkIsolatedBuild { '' @
          join '' '' [''pname = '' @ json ext (Some (name pkg)) @ '';'',
                      ''version = '' @ json ext (version pkg) @ '';'',
                      ''locators = [\<newline>'' @ locators @ ''];''] @
          '' });'')"

text \<open>The five lines pushed to \<^verbatim>\<open>isolatedIntegration\<close> for one occurrence.\<close>

definition inject_lines ::
  "externals \<Rightarrow> configuration \<Rightarrow> project \<Rightarrow> package \<Rightarrow> package \<Rightarrow> string list" where
  "inject_lines ext cfg proj pkg devirtPkg =
    [''echo '' @ [CHR 0x27] @ ''injecting build for '' @ name pkg @ [CHR 0x27],
     ''yarn nixify inject-build '' @ [CHR 0x5C],
     ''  '' @ json ext (Some (stringifyLocator ext pkg)) @ '' '' @ [CHR 0x5C],
     ''  ${'' @ isolatedProp ext devirtPkg @ ''} '' @ [CHR 0x5C],
     ''  '' @ json ext (Some (installLocation ext cfg proj pkg))]"

definition isolated_step ::
  "externals \<Rightarrow> configuration \<Rightarrow> project \<Rightarrow> (string \<times> cache_entry) list \<Rightarrow> string \<Rightarrow>
   isolated_state \<Rightarrow> (error + isolated_state) option" where
  "isolated_step ext cfg proj entries key st =
    (case map_of (storedPackages proj) key of
       None \<Rightarrow> Some (Inl (Error ''Assertion failed: The locator should have been registered''))
     | Some pkg \<Rightarrow>
         if name pkg \<notin> set (isolatedNixBuilds cfg) then Some (Inr st)
         else if nodeLinker cfg \<noteq> ''pnp'' then
           Some (Inl (Error (''The nodeLinker '' @ nodeLinker cfg @
                             '' is not supported for isolated Nix builds'')))
         else
           and_then
             (if isVirtualLocator ext pkg then
                (case map_of (storedPackages proj) (devirtualizeLocator ext pkg) of
                   None \<Rightarrow> Some (Inl (Error ''Assertion failed: The locator should have been registered''))
                 | Some p \<Rightarrow> Some (Inr p))
              else Some (Inr pkg))
           (\<lambda>devirtPkg.
           and_then
             (if devirtPkg \<notin> set (isolatedPackages st) then
                and_then (collectTree ext proj entries pkg [])
                  (\<lambda>out. Some (Inr (st\<lparr>isolatedPackages := isolatedPackages st @ [devirtPkg],
                                        isolatedCode := isolatedCode st @
                                          [isolatedCode_entry ext pkg devirtPkg (sort out)]\<rparr>)))
              else Some (Inr st))
           (\<lambda>st1.
             Some (Inr (st1\<lparr>isolatedIntegration :=
               (if isolatedIntegration st1 = [] then [''# Copy in isolated builds.'']
                else isolatedIntegration st1)
               @ inject_lines ext cfg proj pkg devirtPkg\<rparr>)))))"

definition isolated ::
  "externals \<Rightarrow> configuration \<Rightarrow> project \<Rightarrow> (string \<times> cache_entry) list \<Rightarrow>
   (error + isolated_state) option" where
  "isolated ext cfg proj entries =
     and_then
       (for_of (map fst (storedBuildState proj)) (isolated_step ext cfg proj entries)
          \<lparr>isolatedPackages = [], isolatedIntegration = [], isolatedCode = []\<rparr>)
       (\<lambda>st. Some (Inr (if isolatedIntegration st \<noteq> []
                         then st\<lparr>isolatedIntegration := isolatedIntegration st @
                                   [''echo '' @ [CHR 0x27] @ ''running yarn install'' @ [CHR 0x27]]\<rparr>
                         else st)))"

subsection \<open>The sanity checks\<close>

text \<open>The sanity checks: the Yarn path and the cache folder as the Nix expression will
  name them, and the warnings reported on the way.\<close>

definition sanity_checks ::
  "externals \<Rightarrow> configuration \<Rightarrow> project \<Rightarrow> world \<Rightarrow> string \<times> string \<times> world" where
  "sanity_checks ext cfg proj w =
    (let yarnPathAbs = yarnPath cfg;
         yarnPath0 = ppath_relative ext (cwd proj) yarnPathAbs;
         yarnPath1 = (if startsWith yarnPath0 ''../'' then yarnPathAbs else yarnPath0);
         w1 = (if startsWith yarnPath0 ''../'' then
                 report Warning (''The Yarn path '' @ yarnPathAbs @
                   '' is outside the project - it may not be reachable by the Nix build'') w
               else w);
         cacheFolderAbs = cacheFolder cfg;
         cacheFolder0 = ppath_relative ext (cwd proj) cacheFolderAbs;
         cacheFolder1 = (if startsWith cacheFolder0 ''../'' then cacheFolderAbs else cacheFolder0);
         w2 = (if startsWith cacheFolder0 ''../'' then
                 report Warning (''The cache folder '' @ cacheFolderAbs @
                   '' is outside the project - it may not be reachable by the Nix build'') w1
               else w1);
         w3 = fold (\<lambda>source w'.
                 if \<not> startsWith source ''<'' \<and>
                    startsWith (ppath_relative ext (cwd proj) source) ''../''
                 then report Warning (''The config file '' @ source @
                        '' is outside the project - it may not be reachable by the Nix build'') w'
                 else w')
               (sources cfg) w2
     in (yarnPath1, cacheFolder1, w3))"

subsection \<open>The template\<close>

text \<open>The text with the lines \<open>ls\<close>, each ended by a line feed.\<close>

definition unlines :: "string list \<Rightarrow> string" where
  "unlines ls = concat (map (\<lambda>l. l @ ''\<newline>'') ls)"

text \<open>\<^verbatim>\<open>./tmpl/yarn-project.nix.in\<close>, imported as \<^verbatim>\<open>projectExprTmpl\<close>: the 159 lines that
  follow the generator in the source file, where line \<open>n\<close> of the template is line
  \<open>354 + n\<close>. The lines without a slot and without a condition are kept in six lists;
  \<open>projectExprTmpl\<close> puts them together with the ten other lines.\<close>

text \<open>Lines 1 to 8 of the template: the header and the arguments.\<close>

definition tmpl_head :: "string list" where
  \<open>tmpl_head =
    [''# This file is generated by running "yarn install" inside your project.'',
     ''# Manual changes might be lost - proceed with caution!'',
     '''',
     ''{ lib, nodejs, stdenv, fetchurl, writeText }:'',
     ''{ src, overrideAttrs ? null, ... } @ args:'',
     '''',
     ''let'',
     '''']\<close>

text \<open>Lines 12 to 58: what all the derivations share, and the fetching of the cache.\<close>

definition tmpl_common :: "string list" where
  \<open>tmpl_common =
    ['''',
     ''  # Call overrideAttrs on a derivation if a function is provided.'',
     ''  optionalOverride = fn: drv:'',
     ''    if fn == null then drv else drv.overrideAttrs fn;'',
     '''',
     ''  # Common attributes between Yarn derivations.'',
     ''  drvCommon = {'',
     ''    # Make sure the build uses the right Node.js version everywhere.'',
     ''    buildInputs = [ nodejs ];'',
     ''    # Tell node-gyp to use the provided Node.js headers for native code builds.'',
     ''    npm_config_nodedir = nodejs;'',
     ''    # Tell node-pre-gyp to never fetch binaries / always build from source.'',
     ''    npm_config_build_from_source = "true";'',
     ''    # Defines the shell alias to run Yarn.'',
     ''    postHook = '' @ [CHR 0x27, CHR 0x27],
     ''      yarn() {'',
     ''        CI=1 node "${yarnPath}" "$@"'',
     ''      }'',
     ''    '' @ [CHR 0x27, CHR 0x27] @ '';'',
     ''  };'',
     '''',
     ''  # Create derivations for fetching dependencies.'',
     ''  cacheDrvs = let'',
     ''    builder = builtins.toFile "builder.sh" '' @ [CHR 0x27, CHR 0x27],
     ''      source $stdenv/setup'',
     ''      cd "$src"'',
     ''      HOME="$TMP" yarn_cache_folder="$TMP" CI=1 '' @ [CHR 0x5C],
     ''        node '${yarnPath}' nixify fetch-one $locator'',
     ''      # Because we change the cache dir, Yarn may generate a different name.'',
     ''      mv "$TMP/$(sed 's/-[^-]*'' @ [CHR 0x5C] @ ''.[^-]*$//' <<< "$outputFilename")"-* $out'',
     ''    '' @ [CHR 0x27, CHR 0x27] @ '';'',
     ''  in lib.mapAttrs (locator: { filename, sha512 }: stdenv.mkDerivation {'',
     ''    inherit src builder locator;'',
     ''    name = lib.strings.sanitizeDerivationName locator;'',
     ''    buildInputs = [ nodejs ];'',
     ''    outputFilename = filename;'',
     ''    outputHashMode = "flat";'',
     ''    outputHashAlgo = "sha512";'',
     ''    outputHash = sha512;'',
     ''  }) cacheEntries;'',
     '''',
     ''  # Create a shell snippet to copy dependencies from a list of derivations.'',
     ''  mkCacheBuilderForDrvs = drvs:'',
     ''    writeText "collect-cache.sh" (lib.concatMapStrings (drv: '' @ [CHR 0x27, CHR 0x27],
     ''      cp ${drv} '${drv.outputFilename}'' @ [CHR 0x27],
     ''    '' @ [CHR 0x27, CHR 0x27] @ '') drvs);'',
     '''']\<close>

text \<open>Lines 60 to 93, between the two lines of the condition: the support for isolated builds.\<close>

definition tmpl_isolated_support :: "string list" where
  \<open>tmpl_isolated_support =
    [''  # Create a shell snippet to copy dependencies from a list of locators.'',
     ''  mkCacheBuilderForLocators = let'',
     ''    pickCacheDrvs = map (locator: cacheDrvs.${locator});'',
     ''  in locators:'',
     ''    mkCacheBuilderForDrvs (pickCacheDrvs locators);'',
     '''',
     ''  # Create a derivation that builds a node-pre-gyp module in isolation.'',
     ''  mkIsolatedBuild = { pname, version, locators }: stdenv.mkDerivation (drvCommon // {'',
     ''    inherit pname version;'',
     ''    phases = [ "buildPhase" "installPhase" ];'',
     '''',
     ''    buildPhase = '' @ [CHR 0x27, CHR 0x27],
     ''      mkdir -p .yarn/cache'',
     ''      pushd .yarn/cache > /dev/null'',
     ''      source ${mkCacheBuilderForLocators locators}'',
     ''      popd > /dev/null'',
     '''',
     ''      echo '{ "dependencies": { "${pname}": "${version}" } }' > package.json'',
     ''      install -m 0600 ${lockfile} ./yarn.lock'',
     ''      export yarn_global_folder="$TMP"'',
     ''      export YARN_ENABLE_IMMUTABLE_INSTALLS=false'',
     ''      yarn --immutable-cache'',
     ''    '' @ [CHR 0x27, CHR 0x27] @ '';'',
     '''',
     ''    installPhase = '' @ [CHR 0x27, CHR 0x27],
     ''      unplugged=( .yarn/unplugged/${pname}-*/node_modules/* )'',
     ''      if [[ ! -e "'' @ [CHR 0x27, CHR 0x27] @ ''${unplugged[@]}" ]]; then'',
     ''        echo >&2 "Could not find the unplugged path for ${pname}"'',
     ''        exit 1'',
     ''      fi'',
     '''',
     ''      mv "$unplugged" $out'',
     ''    '' @ [CHR 0x27, CHR 0x27] @ '';'',
     ''  });'']\<close>

text \<open>Lines 95 to 98: the head of the project derivation.\<close>

definition tmpl_project_head :: "string list" where
  \<open>tmpl_project_head =
    ['''',
     ''  # Main project derivation.'',
     ''  project = stdenv.mkDerivation (drvCommon // {'',
     ''    inherit src;'']\<close>

text \<open>Lines 100 to 123: the configure phase up to the place of the injection steps.\<close>

definition tmpl_configure :: "string list" where
  \<open>tmpl_configure =
    [''    # Disable Nixify plugin to save on some unnecessary processing.'',
     ''    yarn_enable_nixify = "false";'',
     '''',
     ''    configurePhase = '' @ [CHR 0x27, CHR 0x27],
     ''      # Copy over the Yarn cache.'',
     ''      rm -fr '${cacheFolder}'' @ [CHR 0x27],
     ''      mkdir -p '${cacheFolder}'' @ [CHR 0x27],
     ''      pushd '${cacheFolder}' > /dev/null'',
     ''      source ${mkCacheBuilderForDrvs (lib.attrValues cacheDrvs)}'',
     ''      popd > /dev/null'',
     '''',
     ''      # Yarn may need a writable home directory.'',
     ''      export yarn_global_folder="$TMP"'',
     '''',
     ''      # Some node-gyp calls may call out to npm, which could fail due to an'',
     ''      # read-only home dir.'',
     ''      export HOME="$TMP"'',
     '''',
     ''      # running preConfigure after the cache is populated allows for'',
     ''      # preConfigure to contain substituteInPlace for dependencies as well as the'',
     ''      # main project. This is necessary for native bindings that maybe have'',
     ''      # hardcoded values.'',
     ''      runHook preConfigure'',
     '''']\<close>

text \<open>Lines 125 to 156: the rest of the project derivation.\<close>

definition tmpl_project_tail :: "string list" where
  \<open>tmpl_project_tail =
    ['''',
     ''      # Run normal Yarn install to complete dependency installation.'',
     ''      yarn install --immutable --immutable-cache'',
     '''',
     ''      runHook postConfigure'',
     ''    '' @ [CHR 0x27, CHR 0x27] @ '';'',
     '''',
     ''    buildPhase = '' @ [CHR 0x27, CHR 0x27],
     ''      runHook preBuild'',
     ''      runHook postBuild'',
     ''    '' @ [CHR 0x27, CHR 0x27] @ '';'',
     '''',
     ''    installPhase = '' @ [CHR 0x27, CHR 0x27],
     ''      runHook preInstall'',
     '''',
     ''      mkdir -p $out/libexec $out/bin'',
     '''',
     ''      # Move the entire project to the output directory.'',
     ''      mv $PWD "$out/libexec/$sourceRoot"'',
     ''      cd "$out/libexec/$sourceRoot"'',
     '''',
     ''      # Invoke a plugin internal command to setup binaries.'',
     ''      yarn nixify install-bin $out/bin'',
     '''',
     ''      runHook postInstall'',
     ''    '' @ [CHR 0x27, CHR 0x27] @ '';'',
     '''',
     ''    passthru = {'',
     ''      inherit nodejs;'',
     ''    };'',
     ''  });'',
     '''']\<close>

definition projectExprTmpl :: string where
  "projectExprTmpl = unlines
     (tmpl_head @
      [''  yarnPath = ./@@YARN_PATH@@;'',
       ''  lockfile = ./@@LOCKFILE@@;'',
       ''  cacheFolder = @@CACHE_FOLDER@@;''] @
      tmpl_common @
      [''#@@ IF NEED_ISOLATED_BUILD_SUPPRORT''] @
      tmpl_isolated_support @
      [''#@@ ENDIF NEED_ISOLATED_BUILD_SUPPRORT''] @
      tmpl_project_head @
      [''    name = @@PROJECT_NAME@@;''] @
      tmpl_configure @
      [''@@ISOLATED_INTEGRATION@@''] @
      tmpl_project_tail @
      [''@@CACHE_ENTRIES@@'',
       ''@@ISOLATED@@'',
       ''in optionalOverride overrideAttrs project''])"

subsection \<open>The renderer\<close>

text \<open>Modelled from the spec: the lines of a text, \<^verbatim>\<open>text.split("\n")\<close>, a part of
  \<^verbatim>\<open>indent\<close>.\<close>

fun split_lines :: "string \<Rightarrow> string list" where
  "split_lines [] = [[]]"
| "split_lines (c # cs) =
     (if c = CHR 0x0A then [] # split_lines cs
      else (case split_lines cs of l # ls \<Rightarrow> (c # l) # ls | [] \<Rightarrow> [[c]]))"

text \<open>Modelled from the spec: \<^verbatim>\<open>indent\<close> of \<^verbatim>\<open>./textUtils\<close> is not among the sources. The
  specification has the block of injection steps left out entirely when there is no step,
  and the template sets the block six columns in: \<open>indent\<close> puts the indentation before
  every line of the text that is not empty.\<close>

definition indent :: "string \<Rightarrow> string \<Rightarrow> string" where
  "indent ind t =
     join ''\<newline>'' (map (\<lambda>line. if line = [] then line else ind @ line) (split_lines t))"

text \<open>Modelled from the spec: the search for the first occurrence of \<open>pat\<close> in \<open>t\<close>, which
  gives what is before and what is after it; a part of \<^verbatim>\<open>renderTmpl\<close>.\<close>

fun split_at :: "string \<Rightarrow> string \<Rightarrow> (string \<times> string) option" where
  "split_at pat [] = (if pat = [] then Some ([], []) else None)"
| "split_at pat (c # cs) =
     (if startsWith (c # cs) pat then Some ([], drop (length pat) (c # cs))
      else map_option (\<lambda>(pre, post). (c # pre, post)) (split_at pat cs))"

lemma split_at_length:
  "split_at pat t = Some (pre, post) \<Longrightarrow> length pre + length pat + length post = length t"
proof (induction t arbitrary: pre)
  case Nil
  then show ?case by (simp split: if_splits)
next
  case (Cons c cs)
  show ?case
  proof (cases "startsWith (c # cs) pat")
    case True
    with Cons.prems have "pre = []" "post = drop (length pat) (c # cs)" by simp_all
    moreover from True have "length pat \<le> length (c # cs)"
      by (metis startsWith_def length_take min.cobounded2 min.commute)
    ultimately show ?thesis by simp
  next
    case False
    with Cons.prems obtain pre' where "split_at pat cs = Some (pre', post)" "pre = c # pre'"
      by auto
    with Cons.IH show ?thesis by simp
  qed
qed

text \<open>Modelled from the spec: the replacement of every occurrence of a slot, a part of
  \<^verbatim>\<open>renderTmpl\<close>.\<close>

function replace_all :: "string \<Rightarrow> string \<Rightarrow> string \<Rightarrow> string" where
  "replace_all pat v t =
    (if pat = [] then t
     else case split_at pat t of
            None \<Rightarrow> t
          | Some (pre, post) \<Rightarrow> pre @ v @ replace_all pat v post)"
  by pat_completeness auto
termination
proof (relation "measure (\<lambda>(pat, v, t). length t)")
  show "wf (measure (\<lambda>(pat, v, t). length t))" by simp
next
  fix pat v :: string and t x2 pre post
  assume "pat \<noteq> []" "split_at pat t = Some x2" "(pre, post) = x2"
  then have "split_at pat t = Some (pre, post)" by simp
  then have "length pre + length pat + length post = length t" by (rule split_at_length)
  with \<open>pat \<noteq> []\<close> show "((pat, v, post), (pat, v, t)) \<in> measure (\<lambda>(pat, v, t). length t)"
    by (cases pat) auto
qed

text \<open>Modelled from the spec: the conditional blocks of one name, a part of
  \<^verbatim>\<open>renderTmpl\<close>.\<close>

function cond_blocks :: "string \<Rightarrow> bool \<Rightarrow> string \<Rightarrow> string" where
  "cond_blocks nm keep t =
    (case split_at (''#@@ IF '' @ nm @ ''\<newline>'') t of
       None \<Rightarrow> t
     | Some (pre, rest) \<Rightarrow>
         (case split_at (''#@@ ENDIF '' @ nm @ ''\<newline>'') rest of
            None \<Rightarrow> t
          | Some (body, post) \<Rightarrow> pre @ (if keep then body else []) @ cond_blocks nm keep post))"
  by pat_completeness auto
termination
proof (relation "measure (\<lambda>(nm, keep, t). length t)")
  show "wf (measure (\<lambda>(nm, keep, t). length t))" by simp
next
  fix nm t x2 pre rest x2a body post and keep :: bool
  assume "split_at (''#@@ IF '' @ nm @ ''\<newline>'') t = Some x2" "(pre, rest) = x2"
    "split_at (''#@@ ENDIF '' @ nm @ ''\<newline>'') rest = Some x2a" "(body, post) = x2a"
  then have "split_at (''#@@ IF '' @ nm @ ''\<newline>'') t = Some (pre, rest)"
    "split_at (''#@@ ENDIF '' @ nm @ ''\<newline>'') rest = Some (body, post)"
    by simp_all
  then have "length pre + length (''#@@ IF '' @ nm @ ''\<newline>'') + length rest = length t"
    "length body + length (''#@@ ENDIF '' @ nm @ ''\<newline>'') + length post = length rest"
    by (simp_all only: split_at_length)
  then show "((nm, keep, post), (nm, keep, t)) \<in> measure (\<lambda>(nm, keep, t). length t)"
    by simp
qed

declare replace_all.simps [simp del] cond_blocks.simps [simp del]

text \<open>Modelled from the spec: what \<^verbatim>\<open>renderTmpl\<close> does with one variable.\<close>

definition render_var :: "string \<times> tmpl_value \<Rightarrow> string \<Rightarrow> string" where
  "render_var var t =
    (case var of
       (nm, TStr v) \<Rightarrow> replace_all (''@@'' @ nm @ ''@@'') v t
     | (nm, TBool b) \<Rightarrow> cond_blocks nm b t)"

text \<open>Modelled from the spec: \<^verbatim>\<open>renderTmpl\<close> of \<^verbatim>\<open>./textUtils\<close> is not among the sources.
  The specification calls it a pure templating step that substitutes the computed values
  into the named slots of the template, done by textual find and replace, with
  conditional blocks. Here the variables are taken in the order in which they are handed
  over. A string replaces every occurrence of its slot \<^verbatim>\<open>@@NAME@@\<close> in the text as it
  stands. A boolean decides the blocks that the lines \<^verbatim>\<open>#@@ IF NAME\<close> and
  \<^verbatim>\<open>#@@ ENDIF NAME\<close> enclose: the two lines go, and what is between them stays when
  the boolean is true and goes when it is false.\<close>

definition renderTmpl :: "string \<Rightarrow> (string \<times> tmpl_value) list \<Rightarrow> string" where
  "renderTmpl tmpl vars = fold render_var vars tmpl"

subsection \<open>Rendering, the wrapper and the preload\<close>

text \<open>The variables handed to \<^verbatim>\<open>renderTmpl\<close>, and the text written to
  \<^verbatim>\<open>nixExprPath\<close>.\<close>

definition projectExpr_vars ::
  "externals \<Rightarrow> configuration \<Rightarrow> project \<Rightarrow> string \<Rightarrow> string \<Rightarrow>
   (string \<times> cache_entry) list \<Rightarrow> isolated_state \<Rightarrow> (string \<times> tmpl_value) list" where
  "projectExpr_vars ext cfg proj yarnPath1 cacheFolder1 entries st =
    (let lockfileRel = ppath_relative ext (ppath_dirname ext (nixExprPath cfg)) (lockfileFilename cfg);
         yarnPathRel = ppath_relative ext (ppath_dirname ext (nixExprPath cfg)) yarnPath1;
         projectName = (case manifest_name proj of
                          None \<Rightarrow> ''workspace''
                        | Some ident \<Rightarrow> stringifyIdent ext ident)
     in [(''PROJECT_NAME'', TStr (json ext (Some projectName))),
         (''YARN_PATH'', TStr yarnPathRel),
         (''LOCKFILE'', TStr lockfileRel),
         (''CACHE_FOLDER'', TStr (json ext (Some cacheFolder1))),
         (''CACHE_ENTRIES'', TStr (cacheEntriesCode ext entries)),
         (''ISOLATED'', TStr (join ''\<newline>'' (isolatedCode st))),
         (''ISOLATED_INTEGRATION'',
            TStr (indent ''      '' (join ''\<newline>'' (isolatedIntegration st)))),
         (''NEED_ISOLATED_BUILD_SUPPRORT'', TBool (length (isolatedIntegration st) > 0))])"

definition projectExpr ::
  "externals \<Rightarrow> configuration \<Rightarrow> project \<Rightarrow> string \<Rightarrow> string \<Rightarrow>
   (string \<times> cache_entry) list \<Rightarrow> isolated_state \<Rightarrow> string" where
  "projectExpr ext cfg proj yarnPath1 cacheFolder1 entries st =
     renderTmpl projectExprTmpl
       (projectExpr_vars ext cfg proj yarnPath1 cacheFolder1 entries st)"

text \<open>The wrapper \<^verbatim>\<open>default.nix\<close>.\<close>

definition defaultExprPath :: "externals \<Rightarrow> project \<Rightarrow> string" where
  "defaultExprPath ext proj = ppath_join ext [cwd proj, ''default.nix'']"

definition flakeExprPath :: "externals \<Rightarrow> project \<Rightarrow> string" where
  "flakeExprPath ext proj = ppath_join ext [cwd proj, ''flake.nix'']"

definition write_default ::
  "externals \<Rightarrow> configuration \<Rightarrow> project \<Rightarrow> world \<Rightarrow> error + world" where
  "write_default ext cfg proj w =
    (if generateDefaultNix cfg then
       if \<not> existsSync w (defaultExprPath ext proj) \<and> \<not> existsSync w (flakeExprPath ext proj)
       then (case writeFile ext (defaultExprPath ext proj) (defaultExprTmpl ext) w of
               Inl e \<Rightarrow> Inl e
             | Inr w' \<Rightarrow>
                 Inr (report Info ''A minimal default.nix was created. You may want to customize it.'' w'))
       else Inr w
     else Inr w)"

text \<open>The preload. \<^verbatim>\<open>xfs.mktempPromise\<close> makes a new directory, hands its name \<open>tmp\<close> to
  the callback and removes the directory when the callback is done or has thrown. What
  the callback puts into it is therefore kept apart from the world, in a \<open>staging\<close>: the
  directories made, beginning with \<open>tmp\<close> itself, and the files copied.

  One turn of the loop over the cache entries: an entry whose store path does not exist
  gets a directory named after the first seven characters of its hash
  (\<^verbatim>\<open>xfs.mkdirPromise\<close> is rejected when the directory is there already) and a copy of
  its file from the cache folder (\<^verbatim>\<open>xfs.copyFilePromise\<close> is rejected when the file
  is missing). \<open>todo\<close> is \<^verbatim>\<open>toPreload\<close>.\<close>

record staging =
  made :: "string list"
  copied :: "(string \<times> string) list"

definition stage_step ::
  "externals \<Rightarrow> cache \<Rightarrow> string \<Rightarrow> world \<Rightarrow> string \<times> cache_entry \<Rightarrow>
   staging \<times> string list \<Rightarrow> error + staging \<times> string list" where
  "stage_step ext cache tmp w le acc =
    (case le of (locator, entry) \<Rightarrow>
     case acc of (stg, todo) \<Rightarrow>
       let name = sanitizeDerivationName ext locator;
           storePath = computeFixedOutputStorePath ext name ''sha512'' (sha512 entry)
       in if \<not> existsSync w storePath then
            let subdir = ppath_join ext [tmp, take 7 (sha512 entry)] in
            if subdir \<in> set (made stg) then
              Inl (Error (''EEXIST: file already exists, mkdir '' @ [CHR 0x27] @ subdir @ [CHR 0x27]))
            else
              let src = ppath_join ext [cache_cwd cache, filename entry];
                  dst = ppath_join ext [subdir, name]
              in case files w src of
                   None \<Rightarrow>
                     Inl (Error (''ENOENT: no such file or directory, copyfile '' @
                                 [CHR 0x27] @ src @ [CHR 0x27] @ '' -> '' @ [CHR 0x27] @ dst @ [CHR 0x27]))
                 | Some content \<Rightarrow>
                     Inr (\<lparr>made = made stg @ [subdir], copied = copied stg @ [(dst, content)]\<rparr>,
                          todo @ [dst])
          else Inr (stg, todo))"

fun stage ::
  "externals \<Rightarrow> cache \<Rightarrow> string \<Rightarrow> world \<Rightarrow> (string \<times> cache_entry) list \<Rightarrow>
   staging \<times> string list \<Rightarrow> error + staging \<times> string list" where
  "stage ext cache tmp w [] acc = Inr acc"
| "stage ext cache tmp w (le # entries) acc =
     (case stage_step ext cache tmp w le acc of
        Inl e \<Rightarrow> Inl e
      | Inr acc' \<Rightarrow> stage ext cache tmp w entries acc')"

text \<open>The batches of at most 100 paths handed to \<^verbatim>\<open>nix-store --add-fixed sha512\<close>. A
  batch that succeeds adds its paths to the store; the first one that does not ends the
  loop.\<close>

function exec_batches :: "externals \<Rightarrow> string list \<Rightarrow> world \<Rightarrow> exec_result \<times> world" where
  "exec_batches ext todo w =
    (if todo = [] then (ExecOk [], w)
     else
       let batch = take 100 todo;
           args = [''--add-fixed'', ''sha512''] @ batch;
           w' = w\<lparr>execs := execs w @ [args]\<rparr>
       in case execvp ext ''nix-store'' args of
            ExecOk added \<Rightarrow> exec_batches ext (drop 100 todo) (w'\<lparr>store := store w' @ added\<rparr>)
          | r \<Rightarrow> (r, w'))"
  by pat_completeness auto
termination
  by (relation "measure (\<lambda>(ext, todo, w). length todo)") auto

text \<open>A number in a template literal: its decimal digits.\<close>

function digits :: "nat \<Rightarrow> string" where
  "digits n = (if n < 10 then [''0123456789'' ! n]
               else digits (n div 10) @ [''0123456789'' ! (n mod 10)])"
  by pat_completeness auto
termination
  by (relation "measure id") auto

text \<open>The staging is outside the \<^verbatim>\<open>try\<close>: what it throws ends the generator. Of what
  \<^verbatim>\<open>nix-store\<close> throws, only the error with the code \<^verbatim>\<open>ENOENT\<close> is caught.\<close>

definition preload ::
  "externals \<Rightarrow> configuration \<Rightarrow> cache \<Rightarrow> (string \<times> cache_entry) list \<Rightarrow> string \<Rightarrow>
   world \<Rightarrow> outcome" where
  "preload ext cfg cache entries tmp w =
    (if enableNixPreload cfg \<and> existsSync w ''/nix/store'' then
       case stage ext cache tmp w entries (\<lparr>made = [tmp], copied = []\<rparr>, []) of
         Inl e \<Rightarrow> Thrown e w
       | Inr (stg, todo) \<Rightarrow>
           let numToPreload = length todo
           in case exec_batches ext todo w of
                (ExecOk added, w') \<Rightarrow>
                  Returned (if numToPreload \<noteq> 0
                            then report Info (''Preloaded '' @ digits numToPreload @
                                   '' packages into the Nix store'') w'
                            else w')
              | (ExecENOENT, w') \<Rightarrow> Returned w'
              | (ExecFailed msg, w') \<Rightarrow> Thrown (Error msg) w'
     else Returned w)"

subsection \<open>The generator\<close>

text \<open>The default export. \<open>tmp\<close> is the directory \<^verbatim>\<open>xfs.mktempPromise\<close> hands to the
  preload.\<close>

definition generator ::
  "externals \<Rightarrow> configuration \<Rightarrow> project \<Rightarrow> cache \<Rightarrow> string \<Rightarrow> world \<Rightarrow> outcome option" where
  "generator ext cfg proj cache tmp w =
    (if startsWith (cwd proj) (tempDir ext) then
       Some (Returned (report Info (''Skipping Nixify, because '' @ cwd proj @
                                    '' appears to be a temporary directory'') w))
     else
       case sanity_checks ext cfg proj w of (yarnPath1, cacheFolder1, w1) \<Rightarrow>
         let entries = cacheEntries ext proj cache (readdir w1 (cache_cwd cache)) in
         case isolated ext cfg proj entries of
           None \<Rightarrow> None
         | Some (Inl e) \<Rightarrow> Some (Thrown e w1)
         | Some (Inr st) \<Rightarrow>
             (case writeFile ext (nixExprPath cfg)
                     (projectExpr ext cfg proj yarnPath1 cacheFolder1 entries st) w1 of
                Inl e \<Rightarrow> Some (Thrown e w1)
              | Inr w2 \<Rightarrow>
                  (case write_default ext cfg proj w2 of
                     Inl e \<Rightarrow> Some (Thrown e w2)
                   | Inr w3 \<Rightarrow> Some (preload ext cfg cache entries tmp w3))))"

subsection \<open>The checks at the head of \<^verbatim>\<open>generate\<close> in \<^verbatim>\<open>src/index.ts\<close>\<close>

text \<open>\<open>Some w'\<close>: a check failed, the error is reported and \<^verbatim>\<open>generate\<close> returns with the
  world \<open>w'\<close>. \<open>None\<close>: \<^verbatim>\<open>generate\<close> goes on to render and write.\<close>

definition generate_checks :: "externals \<Rightarrow> configuration \<Rightarrow> project \<Rightarrow> world \<Rightarrow> world option" where
  "generate_checks ext cfg proj w =
    (if nodeLinker cfg \<noteq> ''pnp'' then
       Some (report ReportError
               (''Only '' @ [CHR 0x27] @ ''pnp'' @ [CHR 0x27] @ '' is currently supported for the '' @
                [CHR 0x27] @ ''nodeLinker'' @ [CHR 0x27] @ '' setting.'') w)
     else if startsWith (ppath_relative ext (cwd proj) (yarnPath cfg)) ''.'' then
       Some (report ReportError
               (''The Yarn path '' @ yarnPath cfg @
                '' is outside the project directory - it cannot be reached by the Nix build'') w)
     else if \<not> existsSync w (ppath_join ext [cwd proj, lockfileFilename cfg]) \<or>
             \<not> existsSync w (getPnpPath_main ext proj) then
       Some (report ReportError
               (''The project in '' @ cwd proj @ ''/package.json doesn'' @ [CHR 0x27] @
                ''t seem to have been installed - running an install there might help'') w)
     else None)"

subsection \<open>The dependency graph and the notions the properties are stated with\<close>

text \<open>The look-up \<^verbatim>\<open>project.storedPackages.get(hash)\<close> followed by the throw on a miss.\<close>

definition registered :: "project \<Rightarrow> string \<Rightarrow> error + package" where
  "registered proj h =
    (case map_of (storedPackages proj) h of
       None \<Rightarrow> Inl (Error ''Assertion failed: The locator should have been registered'')
     | Some p \<Rightarrow> Inr p)"

text \<open>The edges \<^verbatim>\<open>collectTree\<close> follows from a package, in the order it follows them:
  the devirtualized locator of a virtual package, the source locator of a patched one,
  then the resolution of every dependency. An edge is \<open>Inr\<close> the package it leads to,
  or \<open>Inl\<close> the error thrown when the descriptor or the locator is not registered.\<close>

definition edges_of :: "externals \<Rightarrow> project \<Rightarrow> package \<Rightarrow> (error + package) list" where
  "edges_of ext proj pkg =
    (if isVirtualLocator ext pkg then [registered proj (devirtualizeLocator ext pkg)] else []) @
    (if startsWith (reference pkg) ''patch:''
     then [registered proj (parseLocator_sourceLocator ext pkg)] else []) @
    map (\<lambda>dependency.
           case map_of (storedResolutions proj) dependency of
             None \<Rightarrow> Inl (Error ''Assertion failed: The descriptor should have been registered'')
           | Some resolution \<Rightarrow> registered proj resolution)
        (dependencies pkg)"

text \<open>The dependency graph, and the packages with an edge that leads nowhere.\<close>

definition edges :: "externals \<Rightarrow> project \<Rightarrow> (package \<times> package) set" where
  "edges ext proj = {(p, q). Inr q \<in> set (edges_of ext proj p)}"

definition dangling :: "externals \<Rightarrow> project \<Rightarrow> package \<Rightarrow> bool" where
  "dangling ext proj p = (\<exists>e. Inl e \<in> set (edges_of ext proj p))"

text \<open>The first statement of \<^verbatim>\<open>collectTree\<close>: the locator is added when it is a cache entry.\<close>

definition visit :: "externals \<Rightarrow> (string \<times> cache_entry) list \<Rightarrow> package \<Rightarrow> string list \<Rightarrow> string list" where
  "visit ext entries pkg out =
     (if map_of entries (stringifyLocator ext pkg) \<noteq> None
      then set_add (stringifyLocator ext pkg) out else out)"

text \<open>The packages reachable from \<open>p\<close>, and the cache entries among them.\<close>

definition reach :: "externals \<Rightarrow> project \<Rightarrow> package \<Rightarrow> package set" where
  "reach ext proj p = {q. (p, q) \<in> (edges ext proj)\<^sup>*}"

definition closure_keys ::
  "externals \<Rightarrow> project \<Rightarrow> (string \<times> cache_entry) list \<Rightarrow> package \<Rightarrow> string set" where
  "closure_keys ext proj entries p =
     {stringifyLocator ext q | q. q \<in> reach ext proj p \<and> map_of entries (stringifyLocator ext q) \<noteq> None}"

text \<open>\<open>r\<close> is \<open>s\<close> with the strings \<open>G\<close> added: as sets, without introducing a repetition,
  and unchanged when they were all there.\<close>

definition extends :: "string set \<Rightarrow> string list \<Rightarrow> string list \<Rightarrow> bool" where
  "extends G s r = (set r = set s \<union> G \<and> (distinct s \<longrightarrow> distinct r) \<and> (G \<subseteq> set s \<longrightarrow> r = s))"

text \<open>The errors thrown as \<^verbatim>\<open>Error(`Assertion failed: ...`)\<close>.\<close>

definition is_assertion :: "error \<Rightarrow> bool" where
  "is_assertion e = (case e of Error msg \<Rightarrow> startsWith msg ''Assertion failed:'')"

text \<open>What a call of \<^verbatim>\<open>collectTree\<close> that returns has done: \<open>Inr\<close>, the closure is added
  and no edge of a reachable package leads nowhere; \<open>Inl\<close>, an assertion failed and such an
  edge exists.\<close>

definition walk_ok ::
  "externals \<Rightarrow> project \<Rightarrow> (string \<times> cache_entry) list \<Rightarrow> package \<Rightarrow> string list \<Rightarrow>
   error + string list \<Rightarrow> bool" where
  "walk_ok ext proj entries q s r =
    (case r of
       Inr s' \<Rightarrow> extends (closure_keys ext proj entries q) s s' \<and>
                 (\<forall>x \<in> reach ext proj q. \<not> dangling ext proj x)
     | Inl e \<Rightarrow> is_assertion e \<and> (\<exists>x \<in> reach ext proj q. dangling ext proj x))"

text \<open>The package an occurrence is built as: \<^verbatim>\<open>devirtPkg\<close> in the loop.\<close>

definition devirt_of :: "externals \<Rightarrow> project \<Rightarrow> package \<Rightarrow> package" where
  "devirt_of ext proj pkg =
    (if isVirtualLocator ext pkg then
       (case map_of (storedPackages proj) (devirtualizeLocator ext pkg) of
          None \<Rightarrow> pkg
        | Some p \<Rightarrow> p)
     else pkg)"

text \<open>The installed packages the loop does not skip: those registered under a key of
  \<^verbatim>\<open>project.storedBuildState\<close> whose name is in \<^verbatim>\<open>isolatedNixBuilds\<close>, in the order of the keys.\<close>

definition matching :: "configuration \<Rightarrow> project \<Rightarrow> string \<Rightarrow> package list" where
  "matching cfg proj key =
    (case map_of (storedPackages proj) key of
       None \<Rightarrow> []
     | Some pkg \<Rightarrow> if name pkg \<in> set (isolatedNixBuilds cfg) then [pkg] else [])"

definition occurrences :: "configuration \<Rightarrow> project \<Rightarrow> package list" where
  "occurrences cfg proj = concat (map (matching cfg proj) (map fst (storedBuildState proj)))"

text \<open>The occurrences that are the first of their \<^verbatim>\<open>devirtPkg\<close>, \<open>seen\<close> being the packages built so far.\<close>

fun first_occurrences :: "externals \<Rightarrow> project \<Rightarrow> package list \<Rightarrow> package list \<Rightarrow> package list" where
  "first_occurrences ext proj seen [] = []"
| "first_occurrences ext proj seen (pkg # occs) =
     (if devirt_of ext proj pkg \<in> set seen then first_occurrences ext proj seen occs
      else pkg # first_occurrences ext proj (seen @ [devirt_of ext proj pkg]) occs)"

text \<open>The lines of \<^verbatim>\<open>isolatedIntegration\<close> after the loop has met the occurrences \<open>occs\<close>.\<close>

definition integration_after ::
  "externals \<Rightarrow> configuration \<Rightarrow> project \<Rightarrow> string list \<Rightarrow> package list \<Rightarrow> string list" where
  "integration_after ext cfg proj lines occs =
    (if occs = [] then lines
     else (if lines = [] then [''# Copy in isolated builds.''] else lines) @
          concat (map (\<lambda>pkg. inject_lines ext cfg proj pkg (devirt_of ext proj pkg)) occs))"

text \<open>\<open>code\<close> is the entry of \<^verbatim>\<open>isolatedCode\<close> built from the closure of \<open>pkg\<close>.\<close>

definition built ::
  "externals \<Rightarrow> project \<Rightarrow> (string \<times> cache_entry) list \<Rightarrow> string \<Rightarrow> package \<Rightarrow> bool" where
  "built ext proj entries code pkg =
    (\<exists>out. collectTree ext proj entries pkg [] = Some (Inr out) \<and>
           code = isolatedCode_entry ext pkg (devirt_of ext proj pkg) (sort out))"

text \<open>What the loop over the build state cannot tolerate: a key that is not registered, an
  occurrence whose devirtualized locator is not registered, or an edge that leads nowhere
  in the closure of an occurrence that is built.\<close>

definition inconsistent :: "externals \<Rightarrow> configuration \<Rightarrow> project \<Rightarrow> bool" where
  "inconsistent ext cfg proj =
    ((\<exists>key \<in> set (map fst (storedBuildState proj)). map_of (storedPackages proj) key = None) \<or>
     (\<exists>pkg \<in> set (occurrences cfg proj). isVirtualLocator ext pkg \<and>
        map_of (storedPackages proj) (devirtualizeLocator ext pkg) = None) \<or>
     (\<exists>pkg \<in> set (first_occurrences ext proj [] (occurrences cfg proj)).
        \<exists>p \<in> reach ext proj pkg. dangling ext proj p))"

text \<open>The world an outcome leaves behind, and the error it carries.\<close>

fun world_of :: "outcome \<Rightarrow> world" where
  "world_of (Returned w) = w"
| "world_of (Thrown e w) = w"

fun thrown :: "outcome \<Rightarrow> error option" where
  "thrown (Returned w) = None"
| "thrown (Thrown e w) = Some e"

text \<open>When \<^verbatim>\<open>xfs.writeFilePromise\<close> accepts a path, and the world it leaves.\<close>

definition writable :: "externals \<Rightarrow> world \<Rightarrow> string \<Rightarrow> bool" where
  "writable ext w p = (ppath_dirname ext p \<in> set (dirs w) \<and> p \<notin> set (dirs w))"

definition written :: "string \<Rightarrow> string \<Rightarrow> world \<Rightarrow> world" where
  "written p content w = w\<lparr>files := (files w)(p \<mapsto> content)\<rparr>"

text \<open>A text that names no slot and no condition of the template: it nowhere has two @
  in a row.\<close>

fun has_atat :: "string \<Rightarrow> bool" where
  "has_atat (a # b # cs) = ((a = CHR ''@'' \<and> b = CHR ''@'') \<or> has_atat (b # cs))"
| "has_atat [a] = False"
| "has_atat [] = False"

text \<open>What the template gives when the values are put in the places of their slots:
  the lines of the template with the values in them, the lines between the two lines of
  the condition kept when \<open>support\<close> holds, and the two lines of the condition gone.\<close>

definition rendered ::
  "string \<Rightarrow> string \<Rightarrow> string \<Rightarrow> string \<Rightarrow> string \<Rightarrow> string \<Rightarrow> string \<Rightarrow> bool \<Rightarrow> string" where
  "rendered projectName yarnPathRel lockfileRel cacheFolder1 entriesCode isolatedText integration support =
     unlines
      (tmpl_head @
       [''  yarnPath = ./'' @ yarnPathRel @ '';'',
        ''  lockfile = ./'' @ lockfileRel @ '';'',
        ''  cacheFolder = '' @ cacheFolder1 @ '';''] @
       tmpl_common @
       (if support then tmpl_isolated_support else []) @
       tmpl_project_head @
       [''    name = '' @ projectName @ '';''] @
       tmpl_configure @
       [integration] @
       tmpl_project_tail @
       [entriesCode,
        isolatedText,
        ''in optionalOverride overrideAttrs project''])"

text \<open>No string among the variables names a slot or a condition.\<close>

definition slot_free :: "(string \<times> tmpl_value) list \<Rightarrow> bool" where
  "slot_free vars = list_all (\<lambda>(n, v). case v of TStr s \<Rightarrow> \<not> has_atat s | TBool b \<Rightarrow> True) vars"

text \<open>The seven substitutions of \<^verbatim>\<open>renderTmpl\<close>, in the order of the variables.\<close>

definition fill ::
  "string \<Rightarrow> string \<Rightarrow> string \<Rightarrow> string \<Rightarrow> string \<Rightarrow> string \<Rightarrow> string \<Rightarrow> string \<Rightarrow> string" where
  "fill pn yp lf cf ce isol integ t =
     fold render_var
       [(''PROJECT_NAME'', TStr pn), (''YARN_PATH'', TStr yp), (''LOCKFILE'', TStr lf),
        (''CACHE_FOLDER'', TStr cf), (''CACHE_ENTRIES'', TStr ce), (''ISOLATED'', TStr isol),
        (''ISOLATED_INTEGRATION'', TStr integ)] t"

text \<open>A package with content in the cache: \<^verbatim>\<open>cache.getLocatorPath\<close> gives a path, and the
  file of that name is in the listing of the cache folder.\<close>

definition retrievable :: "externals \<Rightarrow> project \<Rightarrow> cache \<Rightarrow> string list \<Rightarrow> package \<Rightarrow> bool" where
  "retrievable ext proj cache cacheFiles pkg =
    (case getLocatorPath cache pkg
            (if truthy (map_of (storedChecksums proj) (locatorHash pkg))
             then map_of (storedChecksums proj) (locatorHash pkg) else None)
            (conditionalLocators proj) of
       None \<Rightarrow> False
     | Some path \<Rightarrow> path \<noteq> [] \<and> ppath_basename ext path \<in> set cacheFiles)"

text \<open>The keys of \<^verbatim>\<open>cacheEntries\<close> in the order the loop first sets them.\<close>

definition cacheEntries_keys ::
  "externals \<Rightarrow> project \<Rightarrow> cache \<Rightarrow> string list \<Rightarrow> package list \<Rightarrow> string list \<Rightarrow> string list" where
  "cacheEntries_keys ext proj cache cacheFiles pkgs keys =
     fold (\<lambda>pkg ks. if retrievable ext proj cache cacheFiles pkg
                     then set_add (stringifyLocator ext pkg) ks else ks) pkgs keys"

text \<open>\<open>rendered\<close> for the values of a run: the project name, the paths, the cache folder
  and the cache entries as the generator computes them, and the given text of the
  isolated builds, block of integration and condition.\<close>

definition rendered_with ::
  "externals \<Rightarrow> configuration \<Rightarrow> project \<Rightarrow> string \<Rightarrow> string \<Rightarrow> (string \<times> cache_entry) list \<Rightarrow>
   string \<Rightarrow> string \<Rightarrow> bool \<Rightarrow> string" where
  "rendered_with ext cfg proj yarnPath1 cacheFolder1 entries isolatedText integration support =
     rendered
       (json ext (Some (case manifest_name proj of None \<Rightarrow> ''workspace''
                          | Some ident \<Rightarrow> stringifyIdent ext ident)))
       (ppath_relative ext (ppath_dirname ext (nixExprPath cfg)) yarnPath1)
       (ppath_relative ext (ppath_dirname ext (nixExprPath cfg)) (lockfileFilename cfg))
       (json ext (Some cacheFolder1))
       (cacheEntriesCode ext entries)
       isolatedText integration support"

subsection \<open>Sample inputs\<close>

text \<open>A small stand-in for the functions of \<open>externals\<close>, used to run the definitions on
  concrete projects: a locator hash is the locator string itself, a virtual reference is
  \<^verbatim>\<open>virtual:<context>#<reference>\<close> and a patched one \<^verbatim>\<open>patch:<source locator>#<patch>\<close>.
  A store path is named after the first seven characters of the hash and the name, and
  \<^verbatim>\<open>nix-store\<close> adds every file it is given under the store path of the directory and
  the name it is staged with.\<close>

definition quoted :: "string \<Rightarrow> string" where
  "quoted s = [CHR 0x22] @ s @ [CHR 0x22]"

fun camel :: "bool \<Rightarrow> string \<Rightarrow> string" where
  "camel up [] = []"
| "camel up (c # cs) =
     (if c = CHR ''-'' then camel True cs
      else (if up \<and> CHR ''a'' \<le> c \<and> c \<le> CHR ''z''
            then ''ABCDEFGHIJKLMNOPQRSTUVWXYZ'' ! (of_char c - (97::nat)) else c)
           # camel False cs)"

definition sample_ext :: externals where
  "sample_ext = \<lparr>
     stringifyLocator = (\<lambda>p. name p @ ''@'' @ reference p),
     isVirtualLocator = (\<lambda>p. startsWith (reference p) ''virtual:''),
     devirtualizeLocator = (\<lambda>p. name p @ ''@'' @ tl (dropWhile (\<lambda>c. c \<noteq> CHR ''#'') (reference p))),
     slugifyLocator = (\<lambda>p. name p @ ''-'' @ filter (\<lambda>c. c \<noteq> CHR '':'' \<and> c \<noteq> CHR ''#'') (reference p)),
     getIdentVendorPath = (\<lambda>p. ''node_modules/'' @ name p),
     stringifyIdent = (\<lambda>i. i),
     parseLocator_sourceLocator = (\<lambda>p. takeWhile (\<lambda>c. c \<noteq> CHR ''#'') (drop 6 (reference p))),
     ppath_relative = (\<lambda>from to. if startsWith to (from @ ''/'') then drop (length from + 1) to else to),
     ppath_dirname = (\<lambda>p. rev (tl (dropWhile (\<lambda>c. c \<noteq> CHR ''/'') (rev p)))),
     ppath_basename = split_pop,
     ppath_join = join ''/'',
     checksumFile = (\<lambda>p. ''0f'' @ split_pop p),
     tempDir = ''/tmp'',
     execvp = (\<lambda>cmd args. ExecOk (map (\<lambda>p. ''/nix/store/'' @
                  split_pop (rev (tl (dropWhile (\<lambda>c. c \<noteq> CHR ''/'') (rev p)))) @ ''-'' @ split_pop p)
                (drop 2 args))),
     json = (\<lambda>v. case v of None \<Rightarrow> ''null'' | Some s \<Rightarrow> quoted s),
     upperCamelize = camel True,
     sanitizeDerivationName = (\<lambda>s. s),
     computeFixedOutputStorePath = (\<lambda>name algo hash. ''/nix/store/'' @ take 7 hash @ ''-'' @ name),
     getPnpPath_main = (\<lambda>proj. cwd proj @ ''/.pnp.cjs''),
     defaultExprTmpl = ''import ./yarn-project.nix'' \<rparr>"

definition mk_pkg :: "string \<Rightarrow> string \<Rightarrow> string list \<Rightarrow> package" where
  "mk_pkg n r ds = \<lparr>name = n, version = Some ''1.0.0'', reference = r,
                     locatorHash = n @ ''@'' @ r, dependencies = ds\<rparr>"

definition mk_project :: "package list \<Rightarrow> (string \<times> string) list \<Rightarrow> string list \<Rightarrow> project" where
  "mk_project pkgs resolutions installed =
     \<lparr>cwd = ''/proj'',
      storedPackages = map (\<lambda>p. (locatorHash p, p)) pkgs,
      storedResolutions = resolutions,
      storedChecksums = [],
      storedBuildState = map (\<lambda>h. (h, ''built'')) installed,
      conditionalLocators = [],
      manifest_name = Some ''app''\<rparr>"

definition mk_entries :: "string list \<Rightarrow> (string \<times> cache_entry) list" where
  "mk_entries keys = map (\<lambda>k. (k, \<lparr>filename = k @ ''.zip'', sha512 = ''0f''\<rparr>)) keys"

text \<open>Two packages that depend on each other, and a diamond.\<close>

definition cycle_project :: project where
  "cycle_project =
     mk_project [mk_pkg ''a'' ''npm:1'' [''b''], mk_pkg ''b'' ''npm:1'' [''a'']]
       [(''a'', ''a@npm:1''), (''b'', ''b@npm:1'')] []"

definition diamond_project :: project where
  "diamond_project =
     mk_project [mk_pkg ''r'' ''npm:1'' [''a'', ''b''], mk_pkg ''a'' ''npm:1'' [''c''],
                 mk_pkg ''b'' ''npm:1'' [''c''], mk_pkg ''c'' ''npm:1'' []]
       [(''a'', ''a@npm:1''), (''b'', ''b@npm:1''), (''c'', ''c@npm:1'')] []"

text \<open>A project with the three kinds of edge: the workspace \<open>app\<close> depends on a virtual
  instance of \<open>lib\<close> and on a patched \<open>x\<close>; \<open>app\<close> has no cache entry.\<close>

definition mixed_project :: project where
  "mixed_project =
     mk_project [mk_pkg ''app'' ''workspace:.'' [''lib'', ''px''],
                 mk_pkg ''lib'' ''virtual:ctx#npm:1'' [''peer''],
                 mk_pkg ''lib'' ''npm:1'' [],
                 mk_pkg ''peer'' ''npm:1'' [],
                 mk_pkg ''x'' ''patch:x@npm:1#fix.patch'' [''y''],
                 mk_pkg ''x'' ''npm:1'' [''y''],
                 mk_pkg ''y'' ''npm:1'' []]
       [(''lib'', ''lib@virtual:ctx#npm:1''), (''px'', ''x@patch:x@npm:1#fix.patch''),
        (''peer'', ''peer@npm:1''), (''y'', ''y@npm:1'')] []"

definition mixed_entries :: "(string \<times> cache_entry) list" where
  "mixed_entries = mk_entries [''lib@npm:1'', ''peer@npm:1'', ''x@patch:x@npm:1#fix.patch'',
                               ''x@npm:1'', ''y@npm:1'']"

text \<open>A cycle with an unregistered descriptor behind it: \<open>a\<close> depends on \<open>b\<close> and on the
  unknown \<open>x\<close>, \<open>b\<close> depends on \<open>a\<close>.\<close>

definition broken_cycle_project :: project where
  "broken_cycle_project =
     mk_project [mk_pkg ''a'' ''npm:1'' [''b'', ''x''], mk_pkg ''b'' ''npm:1'' [''a'']]
       [(''a'', ''a@npm:1''), (''b'', ''b@npm:1'')] []"

text \<open>A project whose package \<open>a\<close> names a descriptor nobody registered, and whose build
  state names a locator nobody registered.\<close>

definition dangling_project :: project where
  "dangling_project =
     mk_project [mk_pkg ''a'' ''npm:1'' [''x'']] [] [''ghost@npm:1'']"

definition sample_cfg :: configuration where
  "sample_cfg = \<lparr>
     yarnPath = ''/proj/.yarn/releases/yarn.cjs'',
     cacheFolder = ''/proj/.yarn/cache'',
     sources = [''/proj/.yarnrc.yml'', ''<environment>''],
     nixExprPath = ''/proj/yarn-project.nix'',
     lockfileFilename = ''yarn.lock'',
     isolatedNixBuilds = [''native-lib''],
     nodeLinker = ''pnp'',
     pnpUnpluggedFolder = ''/proj/.yarn/unplugged'',
     generateDefaultNix = True,
     enableNixPreload = False\<rparr>"

text \<open>One package installed under two peer contexts: the build state names the two
  virtual instances of \<open>native-lib\<close>, which is on the list of isolated builds.\<close>

definition native_project :: project where
  "native_project =
     mk_project [mk_pkg ''app'' ''workspace:.'' [''native-lib''],
                 mk_pkg ''native-lib'' ''virtual:w1#npm:2'' [''zlib''],
                 mk_pkg ''native-lib'' ''virtual:w2#npm:2'' [''zlib''],
                 mk_pkg ''native-lib'' ''npm:2'' [''zlib''],
                 mk_pkg ''zlib'' ''npm:1'' []]
       [(''native-lib'', ''native-lib@virtual:w1#npm:2''), (''zlib'', ''zlib@npm:1'')]
       [''native-lib@virtual:w1#npm:2'', ''native-lib@virtual:w2#npm:2'']"

definition native_entries :: "(string \<times> cache_entry) list" where
  "native_entries =
     [(''native-lib@npm:2'', \<lparr>filename = ''native-lib-npm-2.zip'', sha512 = ''0fnative-lib-npm-2.zip''\<rparr>),
      (''zlib@npm:1'', \<lparr>filename = ''zlib-npm-1.zip'', sha512 = ''0fzlib-npm-1.zip''\<rparr>)]"

definition native_state :: isolated_state where
  "native_state = \<lparr>
     isolatedPackages = [mk_pkg ''native-lib'' ''npm:2'' [''zlib'']],
     isolatedIntegration =
       [''# Copy in isolated builds.'',
        ''echo '' @ [CHR 0x27] @ ''injecting build for native-lib'' @ [CHR 0x27],
        ''yarn nixify inject-build '' @ [CHR 0x5C],
        ''  '' @ quoted ''native-lib@virtual:w1#npm:2'' @ '' '' @ [CHR 0x5C],
        ''  ${isolated.'' @ quoted ''native-lib@npm:2'' @ ''} '' @ [CHR 0x5C],
        ''  '' @ quoted ''.yarn/unplugged/native-lib-virtualw1npm2/node_modules/native-lib'',
        ''echo '' @ [CHR 0x27] @ ''injecting build for native-lib'' @ [CHR 0x27],
        ''yarn nixify inject-build '' @ [CHR 0x5C],
        ''  '' @ quoted ''native-lib@virtual:w2#npm:2'' @ '' '' @ [CHR 0x5C],
        ''  ${isolated.'' @ quoted ''native-lib@npm:2'' @ ''} '' @ [CHR 0x5C],
        ''  '' @ quoted ''.yarn/unplugged/native-lib-virtualw2npm2/node_modules/native-lib'',
        ''echo '' @ [CHR 0x27] @ ''running yarn install'' @ [CHR 0x27]],
     isolatedCode =
       [''isolated.'' @ quoted ''native-lib@npm:2'' @
        '' = optionalOverride (args.overrideNativeLibAttrs or null) (mkIsolatedBuild { pname = '' @
        quoted ''native-lib'' @ ''; version = '' @ quoted ''1.0.0'' @ ''; locators = [\<newline>'' @
        quoted ''native-lib@npm:2'' @ ''\<newline>'' @ quoted ''zlib@npm:1'' @ ''\<newline>]; });'']\<rparr>"

text \<open>A world for the sample projects, and the cache of the sample packages.\<close>

definition sample_world :: world where
  "sample_world = \<lparr>
     files = [''/proj/yarn.lock'' \<mapsto> ''# yarn lockfile'',
              ''/proj/.yarn/cache/native-lib-npm-2.zip'' \<mapsto> ''PK native-lib'',
              ''/proj/.yarn/cache/zlib-npm-1.zip'' \<mapsto> ''PK zlib''],
     dirs = [''/proj'', ''/proj/.yarn/cache''],
     store = [],
     readdir = (\<lambda>d. if d = ''/proj/.yarn/cache''
                     then [''native-lib-npm-2.zip'', ''zlib-npm-1.zip''] else []),
     reports = [],
     execs = []\<rparr>"

definition sample_cache :: cache where
  "sample_cache = \<lparr>
     cache_cwd = ''/proj/.yarn/cache'',
     getLocatorPath = (\<lambda>pkg checksum unstable.
        if startsWith (reference pkg) ''npm:''
        then Some (''/proj/.yarn/cache/'' @ name pkg @ ''-npm-'' @ drop 4 (reference pkg) @ ''.zip'')
        else None)\<rparr>"

text \<open>The sample world with a Nix store, and the configuration that preloads.\<close>

definition store_world :: world where
  "store_world = sample_world\<lparr>dirs := dirs sample_world @ [''/nix/store'']\<rparr>"

definition sample_preload_cfg :: configuration where
  "sample_preload_cfg = sample_cfg\<lparr>enableNixPreload := True\<rparr>"

text \<open>A second world for the sample project: a stale build description, a
  \<^verbatim>\<open>flake.nix\<close> and an earlier report, with the same cache folder.\<close>

definition other_world :: world where
  "other_world = sample_world\<lparr>
     files := (files sample_world)(''/proj/yarn-project.nix'' \<mapsto> ''# stale'',
                                   ''/proj/flake.nix'' \<mapsto> ''{ }''),
     reports := [(Warning, ''reported by an earlier step'')]\<rparr>"



section \<open>Properties\<close>

subsection \<open>Sequencing and loops\<close>

lemma and_then_Some [simp]: "and_then (Some (Inr a)) k = k a"
  by (simp add: and_then_def)

lemma and_then_Inl [simp]: "and_then (Some (Inl e)) k = Some (Inl e)"
  by (simp add: and_then_def)

lemma and_then_None [simp]: "and_then None k = None"
  by (simp add: and_then_def)

lemma and_then_assoc: "and_then (and_then m f) g = and_then m (\<lambda>a. and_then (f a) g)"
  by (cases m) (auto simp: and_then_def split: sum.splits)

lemma and_then_return [simp]: "and_then m (\<lambda>a. Some (Inr a)) = m"
  by (cases m) (auto simp: and_then_def split: sum.splits)

lemma for_of_Nil_fun: "for_of [] body = (\<lambda>s. Some (Inr s))"
  by (rule ext) simp

lemma for_of_Cons_fun: "for_of (x # xs) body = (\<lambda>s. and_then (body x s) (for_of xs body))"
  by (rule ext) simp

lemma for_of_append: "for_of (xs @ ys) body s = and_then (for_of xs body s) (for_of ys body)"
proof (induction xs arbitrary: s)
  case Nil
  show ?case by simp
next
  case (Cons x xs)
  have "for_of (xs @ ys) body = (\<lambda>a. and_then (for_of xs body a) (for_of ys body))"
    by (rule ext) (rule Cons)
  then show ?case by (simp add: and_then_assoc)
qed

lemma for_of_map: "for_of (map g xs) body s = for_of xs (\<lambda>x. body (g x)) s"
proof (induction xs arbitrary: s)
  case Nil
  show ?case by simp
next
  case (Cons x xs)
  have "for_of (map g xs) body = for_of xs (\<lambda>x. body (g x))"
    by (rule ext) (rule Cons)
  then show ?case by simp
qed

lemma for_of_cong: "(\<And>x s. x \<in> set xs \<Longrightarrow> f x s = g x s) \<Longrightarrow> for_of xs f s = for_of xs g s"
proof (induction xs arbitrary: s)
  case Nil
  show ?case by simp
next
  case (Cons x xs)
  have "for_of xs f = for_of xs g" using Cons by auto
  moreover have "f x s = g x s" using Cons.prems by simp
  ultimately show ?case by simp
qed

subsection \<open>One call of \<^verbatim>\<open>collectTree\<close>\<close>

lemma collectTree_body:
  "(let locatorStr = stringifyLocator ext pkg;
        out1 = (if map_of entries locatorStr \<noteq> None then set_add locatorStr out else out)
    in
    and_then
      (if isVirtualLocator ext pkg then
         (case map_of (storedPackages proj) (devirtualizeLocator ext pkg) of
            None \<Rightarrow> Some (Inl (Error ''Assertion failed: The locator should have been registered''))
          | Some devirtPkg \<Rightarrow> f devirtPkg out1)
       else Some (Inr out1))
    (\<lambda>out2.
    and_then
      (if startsWith (reference pkg) ''patch:'' then
         (case map_of (storedPackages proj) (parseLocator_sourceLocator ext pkg) of
            None \<Rightarrow> Some (Inl (Error ''Assertion failed: The locator should have been registered''))
          | Some depatchPkg \<Rightarrow> f depatchPkg out2)
       else Some (Inr out2))
    (\<lambda>out3.
    for_of (dependencies pkg) (\<lambda>dependency out4.
      case map_of (storedResolutions proj) dependency of
        None \<Rightarrow> Some (Inl (Error ''Assertion failed: The descriptor should have been registered''))
      | Some resolution \<Rightarrow>
         (case map_of (storedPackages proj) resolution of
            None \<Rightarrow> Some (Inl (Error ''Assertion failed: The locator should have been registered''))
          | Some depPkg \<Rightarrow> f depPkg out4)) out3)))
   = for_of (edges_of ext proj pkg)
       (\<lambda>t s. case t of Inl e \<Rightarrow> Some (Inl e) | Inr q \<Rightarrow> f q s)
       (visit ext entries pkg out)"
proof -
  let ?B = "\<lambda>t s. case t of Inl e \<Rightarrow> Some (Inl e) | Inr q \<Rightarrow> f q s"
  have one: "(case map_of (storedPackages proj) h of
                None \<Rightarrow> Some (Inl (Error ''Assertion failed: The locator should have been registered''))
              | Some p \<Rightarrow> f p s) = ?B (registered proj h) s" for h s
    by (simp add: registered_def split: option.splits)
  have deps: "for_of (dependencies pkg) (\<lambda>dependency out4.
      case map_of (storedResolutions proj) dependency of
        None \<Rightarrow> Some (Inl (Error ''Assertion failed: The descriptor should have been registered''))
      | Some resolution \<Rightarrow>
         (case map_of (storedPackages proj) resolution of
            None \<Rightarrow> Some (Inl (Error ''Assertion failed: The locator should have been registered''))
          | Some depPkg \<Rightarrow> f depPkg out4))
    = for_of (map (\<lambda>dependency.
           case map_of (storedResolutions proj) dependency of
             None \<Rightarrow> Inl (Error ''Assertion failed: The descriptor should have been registered'')
           | Some resolution \<Rightarrow> registered proj resolution)
        (dependencies pkg)) ?B"
    unfolding for_of_map
    by (rule ext, rule for_of_cong) (simp add: registered_def split: option.splits)
  show ?thesis
    unfolding Let_def deps
    unfolding one edges_of_def visit_def
    by (cases "map_of entries (stringifyLocator ext pkg)")
       (simp_all add: for_of_append for_of_Nil_fun for_of_Cons_fun and_then_assoc)
qed

lemma collectTree_unfold:
  "collectTree ext proj entries pkg out =
     for_of (edges_of ext proj pkg)
       (\<lambda>t s. case t of Inl e \<Rightarrow> Some (Inl e) | Inr q \<Rightarrow> collectTree ext proj entries q s)
       (visit ext entries pkg out)"
  by (subst collectTree.simps) (rule collectTree_body)

lemma collectTree_induct [consumes 1, case_names call]:
  assumes "collectTree ext proj entries pkg out = Some y"
    and step: "\<And>f pkg out y.
           (\<And>q s r. f q s = Some r \<Longrightarrow> P q s r) \<Longrightarrow>
           for_of (edges_of ext proj pkg)
             (\<lambda>t s. case t of Inl e \<Rightarrow> Some (Inl e) | Inr q \<Rightarrow> f q s)
             (visit ext entries pkg out) = Some y \<Longrightarrow>
           P pkg out y"
  shows "P pkg out y"
proof -
  let ?Q = "\<lambda>ext' proj' entries' pkg out y.
              ext' = ext \<and> proj' = proj \<and> entries' = entries \<longrightarrow> P pkg out y"
  have "?Q ext proj entries pkg out y"
    apply (rule collectTree.raw_induct [where P = ?Q, OF _ assms(1)])
    subgoal premises prems for f ext' proj' entries' pkg out y
    proof (intro impI)
      assume eq: "ext' = ext \<and> proj' = proj \<and> entries' = entries"
      show "P pkg out y"
      proof (rule step)
        show "P q s r" if "f ext proj entries q s = Some r" for q s r
          using prems(1) [OF that] by simp
        show "for_of (edges_of ext proj pkg)
             (\<lambda>t s. case t of Inl e \<Rightarrow> Some (Inl e) | Inr q \<Rightarrow> f ext proj entries q s)
             (visit ext entries pkg out) = Some y"
          using prems(2) eq by (simp only: collectTree_body)
      qed
    qed
    done
  then show ?thesis by simp
qed

subsection \<open>What a walk that returns has done\<close>

lemma extends_trans: "extends G s r \<Longrightarrow> extends H r t \<Longrightarrow> extends (G \<union> H) s t"
  unfolding extends_def by auto

lemma extends_refl: "extends {} s s"
  by (simp add: extends_def)

lemma extends_visit:
  "extends (if map_of entries (stringifyLocator ext pkg) \<noteq> None then {stringifyLocator ext pkg} else {})
     out (visit ext entries pkg out)"
  by (auto simp: extends_def visit_def set_add_def)

lemma reach_unfold:
  "reach ext proj p = insert p (\<Union>q \<in> {q. Inr q \<in> set (edges_of ext proj p)}. reach ext proj q)"
proof (intro set_eqI iffI)
  fix x assume "x \<in> reach ext proj p"
  then have "(p, x) \<in> (edges ext proj)\<^sup>*" by (simp add: reach_def)
  then show "x \<in> insert p (\<Union>q \<in> {q. Inr q \<in> set (edges_of ext proj p)}. reach ext proj q)"
  proof (cases rule: converse_rtranclE)
    case base
    then show ?thesis by simp
  next
    case (step q)
    then have "Inr q \<in> set (edges_of ext proj p)" "x \<in> reach ext proj q"
      by (simp_all add: edges_def reach_def)
    then show ?thesis by blast
  qed
next
  fix x assume "x \<in> insert p (\<Union>q \<in> {q. Inr q \<in> set (edges_of ext proj p)}. reach ext proj q)"
  then consider "x = p" | q where "Inr q \<in> set (edges_of ext proj p)" "x \<in> reach ext proj q"
    by blast
  then show "x \<in> reach ext proj p"
  proof cases
    case 1
    then show ?thesis by (simp add: reach_def)
  next
    case (2 q)
    then have "(p, q) \<in> edges ext proj" "(q, x) \<in> (edges ext proj)\<^sup>*"
      by (simp_all add: edges_def reach_def)
    then have "(p, x) \<in> (edges ext proj)\<^sup>*" by (rule converse_rtrancl_into_rtrancl)
    then show ?thesis by (simp add: reach_def)
  qed
qed

lemma closure_keys_unfold:
  "closure_keys ext proj entries p =
     (if map_of entries (stringifyLocator ext p) \<noteq> None then {stringifyLocator ext p} else {}) \<union>
     (\<Union>q \<in> {q. Inr q \<in> set (edges_of ext proj p)}. closure_keys ext proj entries q)"
  (is "?L = ?own \<union> ?R")
proof (intro set_eqI iffI)
  fix k assume "k \<in> ?L"
  then obtain x where x: "k = stringifyLocator ext x" "x \<in> reach ext proj p"
    "map_of entries (stringifyLocator ext x) \<noteq> None"
    unfolding closure_keys_def by blast
  from x(2) have "x = p \<or> (\<exists>q. Inr q \<in> set (edges_of ext proj p) \<and> x \<in> reach ext proj q)"
    by (subst (asm) reach_unfold) blast
  then show "k \<in> ?own \<union> ?R"
  proof
    assume "x = p"
    with x show ?thesis by simp
  next
    assume "\<exists>q. Inr q \<in> set (edges_of ext proj p) \<and> x \<in> reach ext proj q"
    then obtain q where "Inr q \<in> set (edges_of ext proj p)" "x \<in> reach ext proj q" by blast
    with x have "k \<in> ?R" unfolding closure_keys_def by blast
    then show ?thesis by blast
  qed
next
  fix k assume "k \<in> ?own \<union> ?R"
  then consider (own) "k \<in> ?own" | (rest) "k \<in> ?R" by blast
  then show "k \<in> ?L"
  proof cases
    case own
    then have "k = stringifyLocator ext p" "map_of entries (stringifyLocator ext p) \<noteq> None"
      by (simp_all split: if_splits)
    moreover have "p \<in> reach ext proj p" by (simp add: reach_def)
    ultimately show ?thesis unfolding closure_keys_def by blast
  next
    case rest
    then obtain q x where "Inr q \<in> set (edges_of ext proj p)" "x \<in> reach ext proj q"
      "k = stringifyLocator ext x" "map_of entries (stringifyLocator ext x) \<noteq> None"
      unfolding closure_keys_def by blast
    moreover from this have "x \<in> reach ext proj p"
      by (subst reach_unfold) blast
    ultimately show ?thesis unfolding closure_keys_def by blast
  qed
qed

lemma registered_assertion: "registered proj h = Inl e \<Longrightarrow> is_assertion e"
proof -
  assume a: "registered proj h = Inl e"
  have d: "is_assertion (Error ''Assertion failed: The locator should have been registered'')"
    by (simp add: is_assertion_def startsWith_def)
  from a have "e = Error ''Assertion failed: The locator should have been registered''"
    by (cases "map_of (storedPackages proj) h") (simp_all add: registered_def)
  with d show ?thesis by simp
qed

lemma edges_of_assertion: "Inl e \<in> set (edges_of ext proj p) \<Longrightarrow> is_assertion e"
proof -
  assume a: "Inl e \<in> set (edges_of ext proj p)"
  have d: "is_assertion (Error ''Assertion failed: The descriptor should have been registered'')"
    by (simp add: is_assertion_def startsWith_def)
  from a consider
      (v) "Inl e = registered proj (devirtualizeLocator ext p)"
    | (p) "Inl e = registered proj (parseLocator_sourceLocator ext p)"
    | (d) x where "x \<in> set (dependencies p)"
        "Inl e = (case map_of (storedResolutions proj) x of
             None \<Rightarrow> Inl (Error ''Assertion failed: The descriptor should have been registered'')
           | Some resolution \<Rightarrow> registered proj resolution)"
    unfolding edges_of_def by (auto split: if_splits)
  then show ?thesis
  proof cases
    case v
    then show ?thesis by (metis registered_assertion)
  next
    case p
    then show ?thesis by (metis registered_assertion)
  next
    case (d x)
    show ?thesis
    proof (cases "map_of (storedResolutions proj) x")
      case None
      with d(2) \<open>is_assertion (Error _)\<close> show ?thesis by simp
    next
      case (Some r)
      with d(2) show ?thesis by (simp add: registered_assertion [OF sym])
    qed
  qed
qed

lemma loop_ok:
  assumes IH: "\<And>q s r. f q s = Some r \<Longrightarrow> walk_ok ext proj entries q s r"
    and msgs: "\<And>e. Inl e \<in> set ts \<Longrightarrow> is_assertion e"
    and run: "for_of ts (\<lambda>t s. case t of Inl e \<Rightarrow> Some (Inl e) | Inr q \<Rightarrow> f q s) s = Some y"
  shows "case y of
           Inr s' \<Rightarrow> extends (\<Union>q \<in> {q. Inr q \<in> set ts}. closure_keys ext proj entries q) s s' \<and>
                     (\<forall>t \<in> set ts. \<exists>q. t = Inr q \<and> (\<forall>x \<in> reach ext proj q. \<not> dangling ext proj x))
         | Inl e \<Rightarrow> is_assertion e \<and>
                     (\<exists>t \<in> set ts. case t of Inl _ \<Rightarrow> True
                                    | Inr q \<Rightarrow> \<exists>x \<in> reach ext proj q. dangling ext proj x)"
  using msgs run
proof (induction ts arbitrary: s)
  case Nil
  then show ?case by (auto simp: extends_refl)
next
  case (Cons t ts)
  let ?B = "\<lambda>t s. case t of Inl e \<Rightarrow> Some (Inl e) | Inr q \<Rightarrow> f q s"
  from Cons.prems(2) have run: "and_then (?B t s) (for_of ts ?B) = Some y" by simp
  show ?case
  proof (cases t)
    case (Inl e)
    with run have "y = Inl e" by simp
    moreover have "is_assertion e" using Cons.prems(1) Inl by simp
    ultimately show ?thesis using Inl by auto
  next
    case (Inr q)
    with run obtain r where fq: "f q s = Some r" and rest: "and_then (Some r) (for_of ts ?B) = Some y"
      by (cases "f q s") auto
    from IH [OF fq] have w: "walk_ok ext proj entries q s r" .
    show ?thesis
    proof (cases r)
      case (Inl e)
      with rest have "y = Inl e" by simp
      with w Inl Inr show ?thesis by (auto simp: walk_ok_def)
    next
      case r: (Inr s1)
      with rest have tail: "for_of ts ?B s1 = Some y" by simp
      have ih: "case y of
           Inr s' \<Rightarrow> extends (\<Union>q \<in> {q. Inr q \<in> set ts}. closure_keys ext proj entries q) s1 s' \<and>
                     (\<forall>t \<in> set ts. \<exists>q. t = Inr q \<and> (\<forall>x \<in> reach ext proj q. \<not> dangling ext proj x))
         | Inl e \<Rightarrow> is_assertion e \<and>
                     (\<exists>t \<in> set ts. case t of Inl _ \<Rightarrow> True
                                    | Inr q \<Rightarrow> \<exists>x \<in> reach ext proj q. dangling ext proj x)"
        by (rule Cons.IH [OF _ tail]) (use Cons.prems(1) in simp)
      from w r have e1: "extends (closure_keys ext proj entries q) s s1"
        and nd: "\<forall>x \<in> reach ext proj q. \<not> dangling ext proj x"
        by (simp_all add: walk_ok_def)
      show ?thesis
      proof (cases y)
        case (Inl e)
        with ih show ?thesis by auto
      next
        case y: (Inr s')
        with ih have e2: "extends (\<Union>q \<in> {q. Inr q \<in> set ts}. closure_keys ext proj entries q) s1 s'"
          and rest_ok: "\<forall>t \<in> set ts. \<exists>q. t = Inr q \<and> (\<forall>x \<in> reach ext proj q. \<not> dangling ext proj x)"
          by simp_all
        have "(\<Union>q \<in> {q. Inr q \<in> set (t # ts)}. closure_keys ext proj entries q) =
              closure_keys ext proj entries q \<union> (\<Union>q \<in> {q. Inr q \<in> set ts}. closure_keys ext proj entries q)"
          using Inr by auto
        with extends_trans [OF e1 e2] nd rest_ok y Inr show ?thesis by simp
      qed
    qed
  qed
qed

lemma collectTree_ok:
  assumes "collectTree ext proj entries pkg out = Some y"
  shows "walk_ok ext proj entries pkg out y"
  using assms
proof (induction rule: collectTree_induct)
  case (call f pkg out y)
  note spec = loop_ok [where f = f, OF call(1) edges_of_assertion call(2)]
  show ?case
  proof (cases y)
    case (Inl e)
    with spec have "is_assertion e" and
      "\<exists>t \<in> set (edges_of ext proj pkg). case t of Inl _ \<Rightarrow> True
                                    | Inr q \<Rightarrow> \<exists>x \<in> reach ext proj q. dangling ext proj x"
      by simp_all
    then obtain t where t: "t \<in> set (edges_of ext proj pkg)"
      and c: "case t of Inl _ \<Rightarrow> True | Inr q \<Rightarrow> \<exists>x \<in> reach ext proj q. dangling ext proj x"
      by blast
    have "\<exists>x \<in> reach ext proj pkg. dangling ext proj x"
    proof (cases t)
      case (Inl e')
      with t have "dangling ext proj pkg" by (auto simp: dangling_def)
      then show ?thesis by (subst reach_unfold) blast
    next
      case (Inr q)
      with c t show ?thesis by (subst reach_unfold) auto
    qed
    with \<open>is_assertion e\<close> Inl show ?thesis by (simp add: walk_ok_def)
  next
    case (Inr s')
    with spec have e2: "extends (\<Union>q \<in> {q. Inr q \<in> set (edges_of ext proj pkg)}. closure_keys ext proj entries q)
                          (visit ext entries pkg out) s'"
      and all: "\<forall>t \<in> set (edges_of ext proj pkg). \<exists>q. t = Inr q \<and> (\<forall>x \<in> reach ext proj q. \<not> dangling ext proj x)"
      by simp_all
    have "extends (closure_keys ext proj entries pkg) out s'"
      by (subst closure_keys_unfold) (rule extends_trans [OF extends_visit e2])
    moreover have "\<not> dangling ext proj pkg"
      using all by (auto simp: dangling_def)
    then have "\<forall>x \<in> reach ext proj pkg. \<not> dangling ext proj x"
      using all by (subst reach_unfold) auto
    ultimately show ?thesis using Inr by (simp add: walk_ok_def)
  qed
qed

subsection \<open>Walks that return and walks that do not\<close>

lemma for_of_total:
  assumes "\<And>x s. x \<in> set xs \<Longrightarrow> \<exists>r. body x s = Some r"
  shows "\<exists>r. for_of xs body s = Some r"
  using assms
proof (induction xs arbitrary: s)
  case Nil
  show ?case by simp
next
  case (Cons x xs)
  from Cons.prems obtain r where r: "body x s = Some r" by auto
  show ?case
  proof (cases r)
    case (Inl e)
    with r show ?thesis by simp
  next
    case (Inr s1)
    have "\<exists>r. for_of xs body s1 = Some r" by (rule Cons.IH) (use Cons.prems in auto)
    with r Inr show ?thesis by simp
  qed
qed

lemma registered_stored: "registered proj h = Inr q \<Longrightarrow> q \<in> snd ` set (storedPackages proj)"
  by (cases "map_of (storedPackages proj) h")
     (auto simp: registered_def dest!: map_of_SomeD intro: rev_image_eqI)

lemma edge_target_stored:
  assumes "Inr q \<in> set (edges_of ext proj p)"
  shows "q \<in> snd ` set (storedPackages proj)"
proof -
  from assms consider
      (v) "Inr q = registered proj (devirtualizeLocator ext p)"
    | (p) "Inr q = registered proj (parseLocator_sourceLocator ext p)"
    | (d) x where "x \<in> set (dependencies p)"
        "Inr q = (case map_of (storedResolutions proj) x of
             None \<Rightarrow> Inl (Error ''Assertion failed: The descriptor should have been registered'')
           | Some resolution \<Rightarrow> registered proj resolution)"
    unfolding edges_of_def by (auto split: if_splits)
  then show ?thesis
  proof cases
    case v
    then show ?thesis by (metis registered_stored)
  next
    case p
    then show ?thesis by (metis registered_stored)
  next
    case (d x)
    then show ?thesis
      by (cases "map_of (storedResolutions proj) x") (simp_all add: registered_stored [OF sym])
  qed
qed

lemma collectTree_total:
  assumes "acyclic (edges ext proj)"
  shows "\<exists>r. collectTree ext proj entries pkg out = Some r"
proof -
  let ?S = "snd ` set (storedPackages proj)"
  let ?E = "{(p, q). (p, q) \<in> edges ext proj \<and> p \<in> ?S}"
  have sub: "?E \<subseteq> ?S \<times> ?S"
    using edge_target_stored by (auto simp: edges_def)
  have "finite (?S \<times> ?S)" by simp
  with sub have fin: "finite ?E" by (rule finite_subset)
  have "acyclic ?E" by (rule acyclic_subset [OF assms]) auto
  with fin have wf: "wf (?E\<inverse>)" by (rule finite_acyclic_wf_converse)
  have stored: "p \<in> ?S \<longrightarrow> (\<forall>out. \<exists>r. collectTree ext proj entries p out = Some r)" for p
  proof (induction p rule: wf_induct_rule [OF wf])
    case (1 p)
    show ?case
    proof (intro impI allI)
      fix out assume p: "p \<in> ?S"
      show "\<exists>r. collectTree ext proj entries p out = Some r"
        unfolding collectTree_unfold [of ext proj entries p]
      proof (rule for_of_total)
        fix t s assume t: "t \<in> set (edges_of ext proj p)"
        show "\<exists>r. (case t of Inl e \<Rightarrow> Some (Inl e)
                     | Inr q \<Rightarrow> collectTree ext proj entries q s) = Some r"
        proof (cases t)
          case (Inl e)
          then show ?thesis by simp
        next
          case (Inr q)
          with t p have "(q, p) \<in> ?E\<inverse>" by (simp add: edges_def)
          moreover from t Inr have "q \<in> ?S" by (simp add: edge_target_stored)
          ultimately show ?thesis using 1 Inr by simp
        qed
      qed
    qed
  qed
  show ?thesis
    unfolding collectTree_unfold [of ext proj entries pkg]
  proof (rule for_of_total)
    fix t s assume t: "t \<in> set (edges_of ext proj pkg)"
    show "\<exists>r. (case t of Inl e \<Rightarrow> Some (Inl e)
                 | Inr q \<Rightarrow> collectTree ext proj entries q s) = Some r"
    proof (cases t)
      case (Inl e)
      then show ?thesis by simp
    next
      case (Inr q)
      with t have "q \<in> ?S" by (simp add: edge_target_stored)
      with stored Inr show ?thesis by simp
    qed
  qed
qed

text \<open>A set of packages each of whose first edge leads back into the set is never left.\<close>

lemma collectTree_diverges:
  assumes C: "\<And>p. p \<in> C \<Longrightarrow> \<exists>q ts. edges_of ext proj p = Inr q # ts \<and> q \<in> C"
    and pkg: "pkg \<in> C"
  shows "collectTree ext proj entries pkg out = None"
proof (rule ccontr)
  assume "collectTree ext proj entries pkg out \<noteq> None"
  then obtain y where "collectTree ext proj entries pkg out = Some y" by auto
  then have "pkg \<notin> C"
  proof (induction rule: collectTree_induct)
    case (call f pkg out y)
    show ?case
    proof
      assume "pkg \<in> C"
      from C [OF this] obtain q ts where e: "edges_of ext proj pkg = Inr q # ts" and q: "q \<in> C"
        by blast
      from call(2) e obtain r where "f q (visit ext entries pkg out) = Some r"
        by (cases "f q (visit ext entries pkg out)") auto
      from call(1) [OF this] q show False by simp
    qed
  qed
  with pkg show False by simp
qed

subsection \<open>The loop over the build state\<close>

lemma inject_lines_nonempty: "inject_lines ext cfg proj pkg d \<noteq> []"
  by (simp add: inject_lines_def)

lemma integration_after_Nil [simp]: "integration_after ext cfg proj lines [] = lines"
  by (simp add: integration_after_def)

lemma integration_after_Cons:
  "integration_after ext cfg proj lines (pkg # occs) =
     integration_after ext cfg proj
       ((if lines = [] then [''# Copy in isolated builds.''] else lines) @
        inject_lines ext cfg proj pkg (devirt_of ext proj pkg)) occs"
  by (simp add: integration_after_def inject_lines_nonempty)

text \<open>What one iteration that does not throw has done.\<close>

lemma isolated_step_Inr:
  assumes "isolated_step ext cfg proj entries key st = Some (Inr st')"
  shows "(matching cfg proj key = [] \<and> map_of (storedPackages proj) key \<noteq> None \<and> st' = st) \<or>
         (\<exists>pkg. matching cfg proj key = [pkg] \<and> nodeLinker cfg = ''pnp'' \<and>
            (isVirtualLocator ext pkg \<longrightarrow>
               map_of (storedPackages proj) (devirtualizeLocator ext pkg) \<noteq> None) \<and>
            isolatedIntegration st' =
              (if isolatedIntegration st = [] then [''# Copy in isolated builds.'']
               else isolatedIntegration st) @
              inject_lines ext cfg proj pkg (devirt_of ext proj pkg) \<and>
            (if devirt_of ext proj pkg \<in> set (isolatedPackages st)
             then isolatedPackages st' = isolatedPackages st \<and> isolatedCode st' = isolatedCode st
             else isolatedPackages st' = isolatedPackages st @ [devirt_of ext proj pkg] \<and>
                  (\<exists>code. isolatedCode st' = isolatedCode st @ [code] \<and>
                          built ext proj entries code pkg)))"
proof (cases "map_of (storedPackages proj) key")
  case None
  with assms show ?thesis by (simp add: isolated_step_def)
next
  case (Some pkg)
  show ?thesis
  proof (cases "name pkg \<in> set (isolatedNixBuilds cfg)")
    case False
    with assms Some show ?thesis by (simp add: isolated_step_def matching_def)
  next
    case True
    with Some have m: "matching cfg proj key = [pkg]" by (simp add: matching_def)
    from assms Some True have pnp: "nodeLinker cfg = ''pnp''"
      by (auto simp: isolated_step_def split: if_splits)
    let ?d = "devirt_of ext proj pkg"
    have reg: "isVirtualLocator ext pkg \<longrightarrow>
               map_of (storedPackages proj) (devirtualizeLocator ext pkg) \<noteq> None"
      using assms Some True pnp
      by (auto simp: isolated_step_def split: if_splits option.splits)
    then have dv: "(if isVirtualLocator ext pkg then
                (case map_of (storedPackages proj) (devirtualizeLocator ext pkg) of
                   None \<Rightarrow> Some (Inl (Error ''Assertion failed: The locator should have been registered''))
                 | Some p \<Rightarrow> Some (Inr p))
              else Some (Inr pkg)) = Some (Inr ?d)"
      by (auto simp: devirt_of_def)
    have step: "and_then
             (if ?d \<notin> set (isolatedPackages st) then
                and_then (collectTree ext proj entries pkg [])
                  (\<lambda>out. Some (Inr (st\<lparr>isolatedPackages := isolatedPackages st @ [?d],
                                        isolatedCode := isolatedCode st @
                                          [isolatedCode_entry ext pkg ?d (sort out)]\<rparr>)))
              else Some (Inr st))
           (\<lambda>st1.
             Some (Inr (st1\<lparr>isolatedIntegration :=
               (if isolatedIntegration st1 = [] then [''# Copy in isolated builds.'']
                else isolatedIntegration st1)
               @ inject_lines ext cfg proj pkg ?d\<rparr>))) = Some (Inr st')"
      using assms Some True pnp unfolding isolated_step_def by (simp add: dv)
    show ?thesis
    proof (cases "?d \<in> set (isolatedPackages st)")
      case seen: True
      with step have "st' = st\<lparr>isolatedIntegration :=
               (if isolatedIntegration st = [] then [''# Copy in isolated builds.'']
                else isolatedIntegration st)
               @ inject_lines ext cfg proj pkg ?d\<rparr>" by simp
      with m pnp reg seen show ?thesis by simp
    next
      case new: False
      with step obtain r where r: "collectTree ext proj entries pkg [] = Some r"
        by (cases "collectTree ext proj entries pkg []") auto
      with step new obtain out where out: "r = Inr out"
        by (cases r) auto
      with step new r have "st' = st\<lparr>isolatedPackages := isolatedPackages st @ [?d],
                                        isolatedCode := isolatedCode st @
                                          [isolatedCode_entry ext pkg ?d (sort out)],
                                    isolatedIntegration :=
               (if isolatedIntegration st = [] then [''# Copy in isolated builds.'']
                else isolatedIntegration st)
               @ inject_lines ext cfg proj pkg ?d\<rparr>" by auto
      moreover have "built ext proj entries (isolatedCode_entry ext pkg ?d (sort out)) pkg"
        using r out by (auto simp: built_def)
      ultimately show ?thesis using m pnp reg new by auto
    qed
  qed
qed

lemma isolated_loop_Inr:
  assumes "for_of keys (isolated_step ext cfg proj entries) st = Some (Inr st')"
  shows "(\<forall>key \<in> set keys. map_of (storedPackages proj) key \<noteq> None) \<and>
         (concat (map (matching cfg proj) keys) \<noteq> [] \<longrightarrow> nodeLinker cfg = ''pnp'') \<and>
         (\<forall>pkg \<in> set (concat (map (matching cfg proj) keys)). isVirtualLocator ext pkg \<longrightarrow>
               map_of (storedPackages proj) (devirtualizeLocator ext pkg) \<noteq> None) \<and>
         isolatedIntegration st' =
           integration_after ext cfg proj (isolatedIntegration st) (concat (map (matching cfg proj) keys)) \<and>
         isolatedPackages st' = isolatedPackages st @
           map (devirt_of ext proj)
             (first_occurrences ext proj (isolatedPackages st) (concat (map (matching cfg proj) keys))) \<and>
         (\<exists>codes. isolatedCode st' = isolatedCode st @ codes \<and>
            list_all2 (built ext proj entries) codes
              (first_occurrences ext proj (isolatedPackages st) (concat (map (matching cfg proj) keys))))"
  using assms
proof (induction keys arbitrary: st)
  case Nil
  then show ?case by simp
next
  case (Cons key keys)
  from Cons.prems obtain r where r: "isolated_step ext cfg proj entries key st = Some r"
    and rest: "and_then (Some r) (for_of keys (isolated_step ext cfg proj entries)) = Some (Inr st')"
    by (cases "isolated_step ext cfg proj entries key st") auto
  from rest obtain st1 where st1: "r = Inr st1"
    and tail: "for_of keys (isolated_step ext cfg proj entries) st1 = Some (Inr st')"
    by (cases r) auto
  note ih = Cons.IH [OF tail]
  note one = isolated_step_Inr [OF r [unfolded st1]]
  let ?occs = "concat (map (matching cfg proj) keys)"
  from one show ?case
  proof (elim disjE conjE exE)
    assume "matching cfg proj key = []" "map_of (storedPackages proj) key \<noteq> None" "st1 = st"
    with ih show ?thesis by simp
  next
    fix pkg
    assume m: "matching cfg proj key = [pkg]" and pnp: "nodeLinker cfg = ''pnp''"
      and reg: "isVirtualLocator ext pkg \<longrightarrow>
               map_of (storedPackages proj) (devirtualizeLocator ext pkg) \<noteq> None"
      and integ: "isolatedIntegration st1 =
              (if isolatedIntegration st = [] then [''# Copy in isolated builds.'']
               else isolatedIntegration st) @
              inject_lines ext cfg proj pkg (devirt_of ext proj pkg)"
      and pk: "if devirt_of ext proj pkg \<in> set (isolatedPackages st)
             then isolatedPackages st1 = isolatedPackages st \<and> isolatedCode st1 = isolatedCode st
             else isolatedPackages st1 = isolatedPackages st @ [devirt_of ext proj pkg] \<and>
                  (\<exists>code. isolatedCode st1 = isolatedCode st @ [code] \<and>
                          built ext proj entries code pkg)"
    from m have key: "map_of (storedPackages proj) key \<noteq> None"
      by (auto simp: matching_def split: option.splits)
    have i: "isolatedIntegration st' =
           integration_after ext cfg proj (isolatedIntegration st) (pkg # ?occs)"
      using ih integ by (simp add: integration_after_Cons)
    show ?thesis
    proof (cases "devirt_of ext proj pkg \<in> set (isolatedPackages st)")
      case True
      with pk have "isolatedPackages st1 = isolatedPackages st" "isolatedCode st1 = isolatedCode st"
        by simp_all
      with ih i m pnp reg key True show ?thesis by simp
    next
      case False
      with pk obtain code where p1: "isolatedPackages st1 = isolatedPackages st @ [devirt_of ext proj pkg]"
        and c1: "isolatedCode st1 = isolatedCode st @ [code]" and b: "built ext proj entries code pkg"
        by auto
      from ih obtain codes where c2: "isolatedCode st' = isolatedCode st1 @ codes"
        and l: "list_all2 (built ext proj entries) codes
              (first_occurrences ext proj (isolatedPackages st1) ?occs)"
        by blast
      have "isolatedCode st' = isolatedCode st @ (code # codes)" using c1 c2 by simp
      moreover have "list_all2 (built ext proj entries) (code # codes)
              (first_occurrences ext proj (isolatedPackages st) (pkg # ?occs))"
        using l b False p1 by simp
      ultimately have "\<exists>codes. isolatedCode st' = isolatedCode st @ codes \<and>
            list_all2 (built ext proj entries) codes
              (first_occurrences ext proj (isolatedPackages st) (pkg # ?occs))" by blast
      with ih i m pnp reg key False p1 show ?thesis by simp
    qed
  qed
qed

subsection \<open>Termination of the walk (C1)\<close>

lemmas sample_defs = sample_ext_def mk_pkg_def mk_project_def mk_entries_def startsWith_def
  edges_of_def registered_def

lemma acyclic_edges_rank:
  fixes rk :: "package \<Rightarrow> nat"
  assumes "\<forall>p \<in> snd ` set (storedPackages proj). \<forall>q. Inr q \<in> set (edges_of ext proj p) \<longrightarrow> rk q < rk p"
  shows "acyclic (edges ext proj)"
proof -
  let ?S = "snd ` set (storedPackages proj)"
  let ?rk = "\<lambda>p. if p \<in> ?S then rk p else Suc (Max (rk ` ?S))"
  have "?rk q < ?rk p" if "(p, q) \<in> edges ext proj" for p q
  proof -
    from that have e: "Inr q \<in> set (edges_of ext proj p)" by (simp add: edges_def)
    then have q: "q \<in> ?S" by (rule edge_target_stored)
    show ?thesis
    proof (cases "p \<in> ?S")
      case True
      with assms e q show ?thesis by auto
    next
      case False
      have "rk q \<le> Max (rk ` ?S)" using q by (intro Max_ge) auto
      then have "rk q < Suc (Max (rk ` ?S))" by simp
      with False q show ?thesis by simp
    qed
  qed
  then show ?thesis by (rule acyclicI_order)
qed

lemma reach_trans: "q \<in> reach ext proj p \<Longrightarrow> reach ext proj q \<subseteq> reach ext proj p"
  by (auto simp: reach_def)

lemma closure_keys_mono:
  "q \<in> reach ext proj p \<Longrightarrow> closure_keys ext proj entries q \<subseteq> closure_keys ext proj entries p"
  using reach_trans [of q ext proj p] by (auto simp: closure_keys_def)

lemma collectTree_revisit:
  assumes ac: "acyclic (edges ext proj)"
    and run: "collectTree ext proj entries pkg out = Some (Inr out')"
    and q: "q \<in> reach ext proj pkg"
  shows "collectTree ext proj entries q out' = Some (Inr out')"
proof -
  from collectTree_ok [OF run]
  have e: "extends (closure_keys ext proj entries pkg) out out'"
    and nd: "\<forall>x \<in> reach ext proj pkg. \<not> dangling ext proj x"
    by (simp_all add: walk_ok_def)
  from collectTree_total [OF ac] obtain r where r: "collectTree ext proj entries q out' = Some r"
    by blast
  from collectTree_ok [OF r] have w: "walk_ok ext proj entries q out' r" .
  show ?thesis
  proof (cases r)
    case (Inl err)
    with w have "\<exists>x \<in> reach ext proj q. dangling ext proj x" by (simp add: walk_ok_def)
    with nd reach_trans [OF q] show ?thesis by blast
  next
    case (Inr out'')
    with w have e2: "extends (closure_keys ext proj entries q) out' out''" by (simp add: walk_ok_def)
    have "closure_keys ext proj entries q \<subseteq> set out'"
      using closure_keys_mono [OF q] e by (auto simp: extends_def)
    with e2 have "out'' = out'" by (simp add: extends_def)
    with r Inr show ?thesis by simp
  qed
qed

text \<open>
  C1 (as amended). On every dependency graph without a cycle, diamonds included,
  \<^verbatim>\<open>collectTree\<close> returns: a set of locators or an error. When it returns a set, the set
  has no repetition, and visiting any reachable package once more with it adds nothing.
\<close>

theorem collectTree_terminates_on_acyclic:
  assumes "acyclic (edges ext proj)"
  shows "\<exists>r. collectTree ext proj entries pkg out = Some r \<and>
           (\<forall>out'. r = Inr out' \<longrightarrow>
              (distinct out \<longrightarrow> distinct out') \<and>
              (\<forall>q \<in> reach ext proj pkg. collectTree ext proj entries q out' = Some (Inr out')))"
proof -
  from collectTree_total [OF assms] obtain r where r: "collectTree ext proj entries pkg out = Some r"
    by blast
  have "(distinct out \<longrightarrow> distinct out') \<and>
        (\<forall>q \<in> reach ext proj pkg. collectTree ext proj entries q out' = Some (Inr out'))"
    if "r = Inr out'" for out'
  proof -
    from that r have run: "collectTree ext proj entries pkg out = Some (Inr out')" by simp
    from collectTree_ok [OF run] have "distinct out \<longrightarrow> distinct out'"
      by (simp add: walk_ok_def extends_def)
    with collectTree_revisit [OF assms run] show ?thesis by blast
  qed
  with r show ?thesis by blast
qed

lemma diamond_acyclic: "acyclic (edges sample_ext diamond_project)"
  by (rule acyclic_edges_rank [where rk = "\<lambda>p. length (dependencies p)"])
     (simp add: diamond_project_def sample_defs)

text \<open>The diamond: \<open>c\<close> is reached through \<open>a\<close> and through \<open>b\<close> and is listed once.\<close>

theorem collectTree_terminates_on_acyclic_witness:
  "acyclic (edges sample_ext diamond_project) \<and>
   collectTree sample_ext diamond_project
     (mk_entries [''r@npm:1'', ''a@npm:1'', ''b@npm:1'', ''c@npm:1''])
     (mk_pkg ''r'' ''npm:1'' [''a'', ''b'']) []
     = Some (Inr [''r@npm:1'', ''a@npm:1'', ''c@npm:1'', ''b@npm:1'']) \<and>
   collectTree sample_ext diamond_project
     (mk_entries [''r@npm:1'', ''a@npm:1'', ''b@npm:1'', ''c@npm:1''])
     (mk_pkg ''r'' ''npm:1'' [''a'', ''b''])
     [''r@npm:1'', ''a@npm:1'', ''c@npm:1'', ''b@npm:1'']
     = Some (Inr [''r@npm:1'', ''a@npm:1'', ''c@npm:1'', ''b@npm:1''])"
proof -
  let ?en = "mk_entries [''r@npm:1'', ''a@npm:1'', ''b@npm:1'', ''c@npm:1'']"
  let ?r = "mk_pkg ''r'' ''npm:1'' [''a'', ''b'']"
  have run: "collectTree sample_ext diamond_project ?en ?r []
     = Some (Inr [''r@npm:1'', ''a@npm:1'', ''c@npm:1'', ''b@npm:1''])"
    by (simp add: collectTree_unfold visit_def set_add_def diamond_project_def sample_defs)
  have "?r \<in> reach sample_ext diamond_project ?r" by (simp add: reach_def)
  with collectTree_terminates_on_acyclic [OF diamond_acyclic, of ?en ?r "[]"] run
  show ?thesis using diamond_acyclic by simp
qed

text \<open>C1 as stated fails: \<^verbatim>\<open>collectTree\<close> keeps no set of visited packages, and on the
  cycle of \<open>a\<close> and \<open>b\<close> the call never returns.\<close>

theorem collectTree_cycle_counterexample:
  "collectTree sample_ext cycle_project (mk_entries [''a@npm:1'', ''b@npm:1''])
     (mk_pkg ''a'' ''npm:1'' [''b'']) [] = None"
proof (rule collectTree_diverges [where C = "{mk_pkg ''a'' ''npm:1'' [''b''], mk_pkg ''b'' ''npm:1'' [''a'']}"])
  fix p assume "p \<in> {mk_pkg ''a'' ''npm:1'' [''b''], mk_pkg ''b'' ''npm:1'' [''a'']}"
  then show "\<exists>q ts. edges_of sample_ext cycle_project p = Inr q # ts \<and>
                   q \<in> {mk_pkg ''a'' ''npm:1'' [''b''], mk_pkg ''b'' ''npm:1'' [''a'']}"
    by (auto simp: cycle_project_def sample_defs)
qed simp

subsection \<open>The closure (C4)\<close>

lemma collectTree_no_dangling_Inr:
  assumes ac: "acyclic (edges ext proj)"
    and nd: "\<forall>p \<in> reach ext proj pkg. \<not> dangling ext proj p"
  shows "\<exists>out'. collectTree ext proj entries pkg out = Some (Inr out')"
proof -
  from collectTree_total [OF ac] obtain r where r: "collectTree ext proj entries pkg out = Some r"
    by blast
  from collectTree_ok [OF r] nd have "\<exists>out'. r = Inr out'"
    by (cases r) (auto simp: walk_ok_def)
  with r show ?thesis by blast
qed

text \<open>
  C4. The set \<^verbatim>\<open>collectTree\<close> returns for a root is the set of cache-entry keys of the
  packages reachable from the root through dependencies, devirtualization and patch
  sources: it is closed under the three kinds of edge as far as their targets are cache
  entries. It is returned whenever the graph is acyclic and consistent.
\<close>

theorem collectTree_closure:
  "(collectTree ext proj entries pkg [] = Some (Inr out) \<longrightarrow>
      set out = closure_keys ext proj entries pkg \<and> distinct out \<and>
      (\<forall>p \<in> reach ext proj pkg. \<forall>q. Inr q \<in> set (edges_of ext proj p) \<longrightarrow>
         q \<in> reach ext proj pkg \<and>
         (map_of entries (stringifyLocator ext q) \<noteq> None \<longrightarrow> stringifyLocator ext q \<in> set out))) \<and>
   (acyclic (edges ext proj) \<longrightarrow> (\<forall>p \<in> reach ext proj pkg. \<not> dangling ext proj p) \<longrightarrow>
      (\<exists>out. collectTree ext proj entries pkg [] = Some (Inr out)))"
proof (intro conjI impI)
  assume run: "collectTree ext proj entries pkg [] = Some (Inr out)"
  from collectTree_ok [OF run] have e: "extends (closure_keys ext proj entries pkg) [] out"
    by (simp add: walk_ok_def)
  then show keys: "set out = closure_keys ext proj entries pkg" and "distinct out"
    by (simp_all add: extends_def)
  show "\<forall>p \<in> reach ext proj pkg. \<forall>q. Inr q \<in> set (edges_of ext proj p) \<longrightarrow>
         q \<in> reach ext proj pkg \<and>
         (map_of entries (stringifyLocator ext q) \<noteq> None \<longrightarrow> stringifyLocator ext q \<in> set out)"
  proof (intro ballI allI impI)
    fix p q assume p: "p \<in> reach ext proj pkg" and q: "Inr q \<in> set (edges_of ext proj p)"
    from q have "q \<in> reach ext proj p" by (subst reach_unfold) (auto simp: reach_def)
    with reach_trans [OF p] have r: "q \<in> reach ext proj pkg" by blast
    then have "map_of entries (stringifyLocator ext q) \<noteq> None \<longrightarrow>
               stringifyLocator ext q \<in> closure_keys ext proj entries pkg"
      by (auto simp: closure_keys_def)
    with r keys show "q \<in> reach ext proj pkg \<and>
         (map_of entries (stringifyLocator ext q) \<noteq> None \<longrightarrow> stringifyLocator ext q \<in> set out)"
      by simp
  qed
next
  assume "acyclic (edges ext proj)" "\<forall>p \<in> reach ext proj pkg. \<not> dangling ext proj p"
  then show "\<exists>out. collectTree ext proj entries pkg [] = Some (Inr out)"
    by (rule collectTree_no_dangling_Inr)
qed

text \<open>From \<open>app\<close> the walk collects the real \<open>lib\<close> behind the virtual one, its peer, the
  patched \<open>x\<close>, the unpatched \<open>x\<close> and its dependency; \<open>app\<close> itself and the virtual
  instance are no cache entries.\<close>

theorem collectTree_closure_witness:
  "collectTree sample_ext mixed_project mixed_entries (mk_pkg ''app'' ''workspace:.'' [''lib'', ''px'']) []
     = Some (Inr [''lib@npm:1'', ''peer@npm:1'', ''x@patch:x@npm:1#fix.patch'', ''x@npm:1'', ''y@npm:1'']) \<and>
   closure_keys sample_ext mixed_project mixed_entries (mk_pkg ''app'' ''workspace:.'' [''lib'', ''px''])
     = {''lib@npm:1'', ''peer@npm:1'', ''x@patch:x@npm:1#fix.patch'', ''x@npm:1'', ''y@npm:1''}"
proof -
  have run: "collectTree sample_ext mixed_project mixed_entries (mk_pkg ''app'' ''workspace:.'' [''lib'', ''px'']) []
     = Some (Inr [''lib@npm:1'', ''peer@npm:1'', ''x@patch:x@npm:1#fix.patch'', ''x@npm:1'', ''y@npm:1''])"
    by (simp add: collectTree_unfold visit_def set_add_def mixed_project_def mixed_entries_def sample_defs)
  with collectTree_closure [of sample_ext mixed_project mixed_entries
         "mk_pkg ''app'' ''workspace:.'' [''lib'', ''px'']"
         "[''lib@npm:1'', ''peer@npm:1'', ''x@patch:x@npm:1#fix.patch'', ''x@npm:1'', ''y@npm:1'']"]
  show ?thesis by auto
qed

subsection \<open>Inconsistent graphs (C6)\<close>

lemma isolated_step_Inl:
  assumes "isolated_step ext cfg proj entries key st = Some (Inl e)"
  shows "is_assertion e \<or> nodeLinker cfg \<noteq> ''pnp''"
proof (cases "map_of (storedPackages proj) key")
  case None
  with assms have "e = Error ''Assertion failed: The locator should have been registered''"
    by (simp add: isolated_step_def)
  then show ?thesis by (simp add: is_assertion_def startsWith_def)
next
  case (Some pkg)
  show ?thesis
  proof (cases "nodeLinker cfg = ''pnp''")
    case False
    then show ?thesis by simp
  next
    case pnp: True
    from assms Some have m: "name pkg \<in> set (isolatedNixBuilds cfg)"
      by (auto simp: isolated_step_def split: if_splits)
    show ?thesis
    proof (cases "isVirtualLocator ext pkg \<and>
                  map_of (storedPackages proj) (devirtualizeLocator ext pkg) = None")
      case True
      with assms Some m pnp
      have "e = Error ''Assertion failed: The locator should have been registered''"
        by (simp add: isolated_step_def)
      then show ?thesis by (simp add: is_assertion_def startsWith_def)
    next
      case False
      let ?d = "devirt_of ext proj pkg"
      from False have dv: "(if isVirtualLocator ext pkg then
                (case map_of (storedPackages proj) (devirtualizeLocator ext pkg) of
                   None \<Rightarrow> Some (Inl (Error ''Assertion failed: The locator should have been registered''))
                 | Some p \<Rightarrow> Some (Inr p))
              else Some (Inr pkg)) = Some (Inr ?d)"
        by (auto simp: devirt_of_def)
      from assms Some m pnp have new: "?d \<notin> set (isolatedPackages st)"
        and "and_then (and_then (collectTree ext proj entries pkg [])
                  (\<lambda>out. Some (Inr (st\<lparr>isolatedPackages := isolatedPackages st @ [?d],
                                        isolatedCode := isolatedCode st @
                                          [isolatedCode_entry ext pkg ?d (sort out)]\<rparr>))))
           (\<lambda>st1.
             Some (Inr (st1\<lparr>isolatedIntegration :=
               (if isolatedIntegration st1 = [] then [''# Copy in isolated builds.'']
                else isolatedIntegration st1)
               @ inject_lines ext cfg proj pkg ?d\<rparr>))) = Some (Inl e)"
        unfolding isolated_step_def by (auto simp: dv split: if_splits)
      then have "collectTree ext proj entries pkg [] = Some (Inl e)"
        by (cases "collectTree ext proj entries pkg []")
           (auto simp: and_then_def split: sum.splits)
      from collectTree_ok [OF this] show ?thesis by (simp add: walk_ok_def)
    qed
  qed
qed

lemma for_of_Inl:
  assumes "for_of xs body s = Some (Inl e)"
  shows "\<exists>x \<in> set xs. \<exists>s'. body x s' = Some (Inl e)"
  using assms
proof (induction xs arbitrary: s)
  case Nil
  then show ?case by simp
next
  case (Cons x xs)
  show ?case
  proof (cases "body x s")
    case None
    with Cons.prems show ?thesis by simp
  next
    case (Some r)
    show ?thesis
    proof (cases r)
      case (Inl e')
      with Some Cons.prems show ?thesis by auto
    next
      case (Inr s1)
      with Some Cons.prems have "for_of xs body s1 = Some (Inl e)" by simp
      from Cons.IH [OF this] show ?thesis by auto
    qed
  qed
qed

lemma isolated_Inr:
  assumes "isolated ext cfg proj entries = Some (Inr st)"
  obtains st0 where
    "for_of (map fst (storedBuildState proj)) (isolated_step ext cfg proj entries)
       \<lparr>isolatedPackages = [], isolatedIntegration = [], isolatedCode = []\<rparr> = Some (Inr st0)"
    "st = (if isolatedIntegration st0 \<noteq> []
           then st0\<lparr>isolatedIntegration := isolatedIntegration st0 @
                     [''echo '' @ [CHR 0x27] @ ''running yarn install'' @ [CHR 0x27]]\<rparr>
           else st0)"
proof -
  let ?loop = "for_of (map fst (storedBuildState proj)) (isolated_step ext cfg proj entries)
       \<lparr>isolatedPackages = [], isolatedIntegration = [], isolatedCode = []\<rparr>"
  from assms obtain r where r: "?loop = Some r"
    by (cases ?loop) (auto simp: isolated_def)
  with assms obtain st0 where "r = Inr st0"
    by (cases r) (auto simp: isolated_def)
  with r assms that show ?thesis by (auto simp: isolated_def)
qed

lemma isolated_Inl:
  assumes "isolated ext cfg proj entries = Some (Inl e)"
  shows "is_assertion e \<or> nodeLinker cfg \<noteq> ''pnp''"
proof -
  let ?loop = "for_of (map fst (storedBuildState proj)) (isolated_step ext cfg proj entries)
       \<lparr>isolatedPackages = [], isolatedIntegration = [], isolatedCode = []\<rparr>"
  from assms have "?loop = Some (Inl e)"
    by (cases ?loop) (auto simp: isolated_def and_then_def split: sum.splits)
  from for_of_Inl [OF this] obtain key s' where
    "isolated_step ext cfg proj entries key s' = Some (Inl e)" by blast
  then show ?thesis by (rule isolated_step_Inl)
qed

lemma isolated_consistent:
  assumes "isolated ext cfg proj entries = Some (Inr st)"
  shows "\<not> inconsistent ext cfg proj"
proof -
  from assms obtain st0 where
    loop: "for_of (map fst (storedBuildState proj)) (isolated_step ext cfg proj entries)
       \<lparr>isolatedPackages = [], isolatedIntegration = [], isolatedCode = []\<rparr> = Some (Inr st0)"
    by (rule isolated_Inr)
  note l = isolated_loop_Inr [OF loop, folded occurrences_def]
  from l have keys: "\<forall>key \<in> set (map fst (storedBuildState proj)). map_of (storedPackages proj) key \<noteq> None"
    and reg: "\<forall>pkg \<in> set (occurrences cfg proj). isVirtualLocator ext pkg \<longrightarrow>
               map_of (storedPackages proj) (devirtualizeLocator ext pkg) \<noteq> None"
    by simp_all
  from l obtain codes where
    "list_all2 (built ext proj entries) codes (first_occurrences ext proj [] (occurrences cfg proj))"
    by auto
  then have "\<forall>pkg \<in> set (first_occurrences ext proj [] (occurrences cfg proj)).
               \<exists>code. built ext proj entries code pkg"
    by (metis in_set_conv_nth list_all2_conv_all_nth)
  then have walks: "\<forall>pkg \<in> set (first_occurrences ext proj [] (occurrences cfg proj)).
               \<forall>p \<in> reach ext proj pkg. \<not> dangling ext proj p"
    using collectTree_ok by (fastforce simp: built_def walk_ok_def)
  from keys reg walks show ?thesis unfolding inconsistent_def by blast
qed

lemma isolated_step_total:
  assumes "acyclic (edges ext proj)"
  shows "\<exists>r. isolated_step ext cfg proj entries key st = Some r"
proof (cases "map_of (storedPackages proj) key")
  case None
  then show ?thesis by (simp add: isolated_step_def)
next
  case (Some pkg)
  from collectTree_total [OF assms] obtain r where r: "collectTree ext proj entries pkg [] = Some r"
    by blast
  show ?thesis
    unfolding isolated_step_def Some
    by (cases r; cases "map_of (storedPackages proj) (devirtualizeLocator ext pkg)")
       (simp_all add: r)
qed

lemma isolated_total:
  assumes "acyclic (edges ext proj)"
  shows "\<exists>r. isolated ext cfg proj entries = Some r"
proof -
  from for_of_total [where body = "isolated_step ext cfg proj entries"
                       and xs = "map fst (storedBuildState proj)"]
    isolated_step_total [OF assms]
  obtain r where "for_of (map fst (storedBuildState proj)) (isolated_step ext cfg proj entries)
       \<lparr>isolatedPackages = [], isolatedIntegration = [], isolatedCode = []\<rparr> = Some r"
    by meson
  then show ?thesis by (cases r) (simp_all add: isolated_def)
qed

text \<open>
  C6 (as amended). A descriptor without a resolution, or a devirtualized, patch-source or
  resolved locator that is not registered, is never passed over: \<^verbatim>\<open>collectTree\<close> and the
  loop over the build state do not return normally, and what they throw is an assertion
  failure (for the loop: when the linker is \<^verbatim>\<open>pnp\<close>; with another linker the error about
  the linker may come first). They do return whenever the graph has no cycle.
\<close>

theorem inconsistent_graph_is_fatal:
  "(collectTree ext proj entries pkg out = Some r \<longrightarrow>
      (\<exists>p \<in> reach ext proj pkg. dangling ext proj p) \<longrightarrow> (\<exists>e. r = Inl e \<and> is_assertion e)) \<and>
   (isolated ext cfg proj entries = Some r' \<longrightarrow> inconsistent ext cfg proj \<longrightarrow>
      (\<exists>e. r' = Inl e \<and> (nodeLinker cfg = ''pnp'' \<longrightarrow> is_assertion e))) \<and>
   (acyclic (edges ext proj) \<longrightarrow>
      (\<exists>r. collectTree ext proj entries pkg out = Some r) \<and>
      (\<exists>r'. isolated ext cfg proj entries = Some r'))"
proof (intro conjI impI)
  assume run: "collectTree ext proj entries pkg out = Some r"
    and d: "\<exists>p \<in> reach ext proj pkg. dangling ext proj p"
  from collectTree_ok [OF run] d show "\<exists>e. r = Inl e \<and> is_assertion e"
    by (cases r) (auto simp: walk_ok_def)
next
  assume run: "isolated ext cfg proj entries = Some r'" and i: "inconsistent ext cfg proj"
  show "\<exists>e. r' = Inl e \<and> (nodeLinker cfg = ''pnp'' \<longrightarrow> is_assertion e)"
  proof (cases r')
    case (Inl e)
    with run isolated_Inl [of ext cfg proj entries e] show ?thesis by auto
  next
    case (Inr st)
    with run isolated_consistent [of ext cfg proj entries st] i show ?thesis by simp
  qed
next
  assume "acyclic (edges ext proj)"
  then show "\<exists>r. collectTree ext proj entries pkg out = Some r" by (rule collectTree_total)
next
  assume "acyclic (edges ext proj)"
  then show "\<exists>r'. isolated ext cfg proj entries = Some r'" by (rule isolated_total)
qed

lemma dangling_project_acyclic: "acyclic (edges sample_ext dangling_project)"
  by (rule acyclic_edges_rank [where rk = "\<lambda>p. length (dependencies p)"])
     (simp add: dangling_project_def sample_defs)

text \<open>The walk from \<open>a\<close> stops at the unregistered descriptor, the loop at the unregistered
  key of the build state.\<close>

theorem inconsistent_graph_is_fatal_witness:
  "acyclic (edges sample_ext dangling_project) \<and>
   dangling sample_ext dangling_project (mk_pkg ''a'' ''npm:1'' [''x'']) \<and>
   collectTree sample_ext dangling_project [] (mk_pkg ''a'' ''npm:1'' [''x'']) []
     = Some (Inl (Error ''Assertion failed: The descriptor should have been registered'')) \<and>
   inconsistent sample_ext sample_cfg dangling_project \<and>
   isolated sample_ext sample_cfg dangling_project []
     = Some (Inl (Error ''Assertion failed: The locator should have been registered'')) \<and>
   is_assertion (Error ''Assertion failed: The descriptor should have been registered'') \<and>
   is_assertion (Error ''Assertion failed: The locator should have been registered'')"
proof -
  let ?a = "mk_pkg ''a'' ''npm:1'' [''x'']"
  have d: "dangling sample_ext dangling_project ?a"
    by (simp add: dangling_def dangling_project_def sample_defs)
  have "?a \<in> reach sample_ext dangling_project ?a" by (simp add: reach_def)
  with d have dr: "\<exists>p \<in> reach sample_ext dangling_project ?a. dangling sample_ext dangling_project p"
    by blast
  have run: "collectTree sample_ext dangling_project [] ?a []
     = Some (Inl (Error ''Assertion failed: The descriptor should have been registered''))"
    by (simp add: collectTree_unfold visit_def dangling_project_def sample_defs)
  have inc: "inconsistent sample_ext sample_cfg dangling_project"
    by (simp add: inconsistent_def dangling_project_def sample_defs)
  have loop: "isolated sample_ext sample_cfg dangling_project []
     = Some (Inl (Error ''Assertion failed: The locator should have been registered''))"
    by (simp add: isolated_def isolated_step_def dangling_project_def sample_defs)
  from inconsistent_graph_is_fatal [of sample_ext dangling_project "[]" ?a "[]"
         "Inl (Error ''Assertion failed: The descriptor should have been registered'')"
         sample_cfg "Inl (Error ''Assertion failed: The locator should have been registered'')"]
    run loop dr inc
  have "is_assertion (Error ''Assertion failed: The descriptor should have been registered'')"
    and "is_assertion (Error ''Assertion failed: The locator should have been registered'')"
    by (auto simp: sample_cfg_def)
  with dangling_project_acyclic d run inc loop show ?thesis by simp
qed

text \<open>C6 as stated fails where the walk does not return: \<open>a\<close> names the unregistered
  descriptor \<open>x\<close> after its dependency \<open>b\<close>, which leads back to \<open>a\<close>; the look-up of \<open>x\<close>
  is never reached and no assertion fails.\<close>

theorem inconsistent_graph_is_fatal_counterexample:
  "dangling sample_ext broken_cycle_project (mk_pkg ''a'' ''npm:1'' [''b'', ''x'']) \<and>
   collectTree sample_ext broken_cycle_project (mk_entries [''a@npm:1'', ''b@npm:1''])
     (mk_pkg ''a'' ''npm:1'' [''b'', ''x'']) [] = None"
proof
  show "dangling sample_ext broken_cycle_project (mk_pkg ''a'' ''npm:1'' [''b'', ''x''])"
    by (simp add: dangling_def broken_cycle_project_def sample_defs)
  show "collectTree sample_ext broken_cycle_project (mk_entries [''a@npm:1'', ''b@npm:1''])
     (mk_pkg ''a'' ''npm:1'' [''b'', ''x'']) [] = None"
  proof (rule collectTree_diverges
           [where C = "{mk_pkg ''a'' ''npm:1'' [''b'', ''x''], mk_pkg ''b'' ''npm:1'' [''a'']}"])
    fix p assume "p \<in> {mk_pkg ''a'' ''npm:1'' [''b'', ''x''], mk_pkg ''b'' ''npm:1'' [''a'']}"
    then show "\<exists>q ts. edges_of sample_ext broken_cycle_project p = Inr q # ts \<and>
                   q \<in> {mk_pkg ''a'' ''npm:1'' [''b'', ''x''], mk_pkg ''b'' ''npm:1'' [''a'']}"
      by (auto simp: broken_cycle_project_def sample_defs)
  qed simp
qed

subsection \<open>The sample run of the loop\<close>

lemma first_occurrences_props:
  "set (first_occurrences ext proj seen occs) \<subseteq> set occs \<and>
   set (seen @ map (devirt_of ext proj) (first_occurrences ext proj seen occs))
     = set seen \<union> devirt_of ext proj ` set occs \<and>
   (distinct seen \<longrightarrow>
      distinct (seen @ map (devirt_of ext proj) (first_occurrences ext proj seen occs)))"
proof (induction occs arbitrary: seen)
  case Nil
  show ?case by simp
next
  case (Cons pkg occs)
  show ?case
  proof (cases "devirt_of ext proj pkg \<in> set seen")
    case True
    with Cons [of seen] show ?thesis by auto
  next
    case False
    with Cons [of "seen @ [devirt_of ext proj pkg]"] show ?thesis by auto
  qed
qed

lemma native_run: "isolated sample_ext sample_cfg native_project native_entries = Some (Inr native_state)"
  by (simp add: isolated_def isolated_step_def collectTree_unfold visit_def set_add_def
        isolatedCode_entry_def isolatedProp_def inject_lines_def installLocation_def
        native_project_def native_entries_def native_state_def sample_cfg_def quoted_def
        sample_defs)

subsection \<open>The generator and the world\<close>

lemma report_frame [simp]:
  "files (report sev msg w) = files w" "dirs (report sev msg w) = dirs w"
  "store (report sev msg w) = store w"
  "readdir (report sev msg w) = readdir w" "execs (report sev msg w) = execs w"
  "reports (report sev msg w) = reports w @ [(sev, msg)]"
  by (simp_all add: report_def)

lemma existsSync_report [simp]: "existsSync (report sev msg w) p = existsSync w p"
  by (simp add: existsSync_def)

lemma written_frame [simp]:
  "files (written p content w) = (files w)(p \<mapsto> content)" "dirs (written p content w) = dirs w"
  "store (written p content w) = store w"
  "readdir (written p content w) = readdir w" "execs (written p content w) = execs w"
  "reports (written p content w) = reports w"
  by (simp_all add: written_def)

lemma writeFile_Inr: "writeFile ext p content w = Inr w' \<longleftrightarrow> writable ext w p \<and> w' = written p content w"
  by (auto simp: writeFile_def writable_def written_def)

lemma writeFile_writable: "writable ext w p \<Longrightarrow> writeFile ext p content w = Inr (written p content w)"
  by (simp add: writeFile_Inr)

lemma writeFile_Inl: "writeFile ext p content w = Inl e \<Longrightarrow> \<not> writable ext w p"
  by (auto simp: writeFile_def writable_def split: if_splits)

lemma writeFile_cases:
  obtains (rejected) e where "\<not> writable ext w p" "writeFile ext p content w = Inl e"
  | (accepted) "writable ext w p" "writeFile ext p content w = Inr (written p content w)"
  by (cases "writeFile ext p content w") (auto simp: writeFile_Inr dest: writeFile_Inl)

lemma fold_warnings_frame:
  "files (fold (\<lambda>x w'. if c x then report sev (m x) w' else w') xs w) = files w \<and>
   dirs (fold (\<lambda>x w'. if c x then report sev (m x) w' else w') xs w) = dirs w \<and>
   store (fold (\<lambda>x w'. if c x then report sev (m x) w' else w') xs w) = store w \<and>
   readdir (fold (\<lambda>x w'. if c x then report sev (m x) w' else w') xs w) = readdir w \<and>
   execs (fold (\<lambda>x w'. if c x then report sev (m x) w' else w') xs w) = execs w"
  by (induction xs arbitrary: w) simp_all

lemma sanity_checks_frame:
  assumes "sanity_checks ext cfg proj w = (y, c, w1)"
  shows "files w1 = files w" "dirs w1 = dirs w" "readdir w1 = readdir w" "execs w1 = execs w"
    "store w1 = store w"
  using assms unfolding sanity_checks_def Let_def
  by (auto simp: fold_warnings_frame)


lemma sanity_checks_world:
  "files (snd (snd (sanity_checks ext cfg proj w))) = files w"
  "dirs (snd (snd (sanity_checks ext cfg proj w))) = dirs w"
  "store (snd (snd (sanity_checks ext cfg proj w))) = store w"
  "readdir (snd (snd (sanity_checks ext cfg proj w))) = readdir w"
  "execs (snd (snd (sanity_checks ext cfg proj w))) = execs w"
proof -
  obtain y c w1 where s: "sanity_checks ext cfg proj w = (y, c, w1)"
    by (cases "sanity_checks ext cfg proj w")
  from sanity_checks_frame [OF s] s
  show "files (snd (snd (sanity_checks ext cfg proj w))) = files w"
    "dirs (snd (snd (sanity_checks ext cfg proj w))) = dirs w"
    "store (snd (snd (sanity_checks ext cfg proj w))) = store w"
    "readdir (snd (snd (sanity_checks ext cfg proj w))) = readdir w"
    "execs (snd (snd (sanity_checks ext cfg proj w))) = execs w"
    by simp_all
qed

text \<open>\<^verbatim>\<open>nix-store\<close> adds to the store and to nothing else.\<close>

lemma exec_batches_frame:
  "files (snd (exec_batches ext todo w)) = files w \<and>
   dirs (snd (exec_batches ext todo w)) = dirs w \<and>
   readdir (snd (exec_batches ext todo w)) = readdir w \<and>
   reports (snd (exec_batches ext todo w)) = reports w \<and>
   set (store w) \<subseteq> set (store (snd (exec_batches ext todo w)))"
proof (induction ext todo w rule: exec_batches.induct)
  case (1 ext todo w)
  show ?case
  proof (cases "todo = []")
    case True
    then show ?thesis by (subst (1 2 3 4 5) exec_batches.simps) simp
  next
    case False
    let ?args = "[''--add-fixed'', ''sha512''] @ take 100 todo"
    let ?w' = "w\<lparr>execs := execs w @ [?args]\<rparr>"
    show ?thesis
    proof (cases "execvp ext ''nix-store'' ?args")
      case (ExecOk added)
      with False 1 [OF False refl refl refl ExecOk] show ?thesis
        by (subst (1 2 3 4 5) exec_batches.simps) (auto simp: Let_def)
    next
      case ExecENOENT
      with False show ?thesis by (subst (1 2 3 4 5) exec_batches.simps) (simp add: Let_def)
    next
      case (ExecFailed msg)
      with False show ?thesis by (subst (1 2 3 4 5) exec_batches.simps) (simp add: Let_def)
    qed
  qed
qed

lemma preload_frame:
  "files (world_of (preload ext cfg cache entries tmp w)) = files w"
  "dirs (world_of (preload ext cfg cache entries tmp w)) = dirs w"
  "set (store w) \<subseteq> set (store (world_of (preload ext cfg cache entries tmp w)))"
proof -
  let ?s = "stage ext cache tmp w entries (\<lparr>made = [tmp], copied = []\<rparr>, [])"
  have "files (world_of (preload ext cfg cache entries tmp w)) = files w \<and>
        dirs (world_of (preload ext cfg cache entries tmp w)) = dirs w \<and>
        set (store w) \<subseteq> set (store (world_of (preload ext cfg cache entries tmp w)))"
  proof (cases ?s)
    case (Inl e)
    then show ?thesis by (simp add: preload_def)
  next
    case (Inr acc)
    obtain stg todo where acc: "acc = (stg, todo)" by (cases acc)
    obtain r w' where e: "exec_batches ext todo w = (r, w')"
      by (cases "exec_batches ext todo w")
    with exec_batches_frame [of ext todo w]
    have "files w' = files w" "dirs w' = dirs w" "set (store w) \<subseteq> set (store w')"
      by simp_all
    with e Inr acc show ?thesis by (cases r) (simp_all add: preload_def Let_def)
  qed
  then show "files (world_of (preload ext cfg cache entries tmp w)) = files w"
    "dirs (world_of (preload ext cfg cache entries tmp w)) = dirs w"
    "set (store w) \<subseteq> set (store (world_of (preload ext cfg cache entries tmp w)))"
    by simp_all
qed

lemma preload_disabled:
  "\<not> enableNixPreload cfg \<Longrightarrow> preload ext cfg cache entries tmp w = Returned w"
  by (simp add: preload_def)

text \<open>The generator, with the pair of \<open>sanity_checks\<close> taken apart.\<close>

lemma generator_unfold:
  "generator ext cfg proj cache tmp w =
    (if startsWith (cwd proj) (tempDir ext) then
       Some (Returned (report Info (''Skipping Nixify, because '' @ cwd proj @
                                    '' appears to be a temporary directory'') w))
     else
       let yarnPath1 = fst (sanity_checks ext cfg proj w);
           cacheFolder1 = fst (snd (sanity_checks ext cfg proj w));
           w1 = snd (snd (sanity_checks ext cfg proj w));
           entries = cacheEntries ext proj cache (readdir w (cache_cwd cache))
       in case isolated ext cfg proj entries of
            None \<Rightarrow> None
          | Some (Inl e) \<Rightarrow> Some (Thrown e w1)
          | Some (Inr st) \<Rightarrow>
              (case writeFile ext (nixExprPath cfg)
                      (projectExpr ext cfg proj yarnPath1 cacheFolder1 entries st) w1 of
                 Inl e \<Rightarrow> Some (Thrown e w1)
               | Inr w2 \<Rightarrow>
                   (case write_default ext cfg proj w2 of
                      Inl e \<Rightarrow> Some (Thrown e w2)
                    | Inr w3 \<Rightarrow> Some (preload ext cfg cache entries tmp w3))))"
proof -
  obtain y c w1 where s: "sanity_checks ext cfg proj w = (y, c, w1)"
    by (cases "sanity_checks ext cfg proj w")
  from sanity_checks_frame(3) [OF s] have "readdir w1 = readdir w" .
  with s show ?thesis by (simp add: generator_def Let_def split: option.splits sum.splits)
qed

subsection \<open>Projects in a temporary directory (C10)\<close>

text \<open>
  C10. When the project directory starts with the real path of the temporary directory
  of the system, the generator reports the skip as an information and returns: no file
  is written, nothing is preloaded and nothing is thrown.
\<close>

theorem temporary_project_is_skipped:
  assumes "startsWith (cwd proj) (tempDir ext)"
  shows "generator ext cfg proj cache tmp w =
           Some (Returned (w\<lparr>reports := reports w @
                   [(Info, ''Skipping Nixify, because '' @ cwd proj @
                           '' appears to be a temporary directory'')]\<rparr>))"
  using assms by (simp add: generator_def report_def)

theorem temporary_project_is_skipped_witness:
  "startsWith (cwd (native_project\<lparr>cwd := ''/tmp/xfs-1a2b/dlx-77''\<rparr>)) (tempDir sample_ext) \<and>
   generator sample_ext sample_cfg (native_project\<lparr>cwd := ''/tmp/xfs-1a2b/dlx-77''\<rparr>)
     sample_cache ''/tmp/xfs-9'' sample_world =
   Some (Returned (sample_world\<lparr>reports :=
     [(Info, ''Skipping Nixify, because /tmp/xfs-1a2b/dlx-77 appears to be a temporary directory'')]\<rparr>))"
proof -
  have h: "startsWith (cwd (native_project\<lparr>cwd := ''/tmp/xfs-1a2b/dlx-77''\<rparr>)) (tempDir sample_ext)"
    by (simp add: sample_defs)
  from temporary_project_is_skipped [OF h, of sample_cfg sample_cache "''/tmp/xfs-9''" sample_world]
  show ?thesis using h by (simp add: sample_world_def)
qed

subsection \<open>Linkers other than pnp (C3)\<close>

lemma isolated_loop_unsupported:
  assumes "nodeLinker cfg \<noteq> ''pnp''"
    and "concat (map (matching cfg proj) keys) \<noteq> []"
  shows "\<exists>e. for_of keys (isolated_step ext cfg proj entries) st = Some (Inl e) \<and>
             ((\<forall>key \<in> set keys. map_of (storedPackages proj) key \<noteq> None) \<longrightarrow>
              e = Error (''The nodeLinker '' @ nodeLinker cfg @
                         '' is not supported for isolated Nix builds''))"
  using assms(2)
proof (induction keys)
  case Nil
  then show ?case by simp
next
  case (Cons key keys)
  show ?case
  proof (cases "map_of (storedPackages proj) key")
    case None
    then show ?thesis by (simp add: isolated_step_def)
  next
    case (Some pkg)
    show ?thesis
    proof (cases "name pkg \<in> set (isolatedNixBuilds cfg)")
      case True
      with Some assms(1) show ?thesis by (simp add: isolated_step_def)
    next
      case False
      with Some have "matching cfg proj key = []" by (simp add: matching_def)
      with Cons.prems have "concat (map (matching cfg proj) keys) \<noteq> []" by simp
      from Cons.IH [OF this] False Some show ?thesis by (simp add: isolated_step_def)
    qed
  qed
qed

lemma isolated_unsupported:
  assumes "nodeLinker cfg \<noteq> ''pnp''" and "occurrences cfg proj \<noteq> []"
  shows "\<exists>e. isolated ext cfg proj entries = Some (Inl e) \<and>
             ((\<forall>key \<in> set (map fst (storedBuildState proj)). map_of (storedPackages proj) key \<noteq> None) \<longrightarrow>
              e = Error (''The nodeLinker '' @ nodeLinker cfg @
                         '' is not supported for isolated Nix builds''))"
proof -
  from isolated_loop_unsupported [OF assms(1) assms(2) [unfolded occurrences_def]]
  obtain e where "for_of (map fst (storedBuildState proj)) (isolated_step ext cfg proj entries)
       \<lparr>isolatedPackages = [], isolatedIntegration = [], isolatedCode = []\<rparr> = Some (Inl e)"
    and "(\<forall>key \<in> set (map fst (storedBuildState proj)). map_of (storedPackages proj) key \<noteq> None) \<longrightarrow>
              e = Error (''The nodeLinker '' @ nodeLinker cfg @
                         '' is not supported for isolated Nix builds'')"
    by blast
  then show ?thesis by (simp add: isolated_def)
qed

text \<open>
  C3 (as amended). With a linker other than \<^verbatim>\<open>pnp\<close>, the generator throws as soon as an
  installed package is on the list of isolated builds: nothing is written and nothing is
  preloaded, and when every key of the build state is registered the error is the one
  about the linker. The command \<^verbatim>\<open>generate\<close> of \<^verbatim>\<open>src/index.ts\<close> reports one error and
  returns before it writes anything, whatever is installed.
\<close>

theorem unsupported_linker_aborts_isolated_builds:
  assumes "nodeLinker cfg \<noteq> ''pnp''"
  shows "(\<not> startsWith (cwd proj) (tempDir ext) \<longrightarrow> occurrences cfg proj \<noteq> [] \<longrightarrow>
            (\<exists>e w'. generator ext cfg proj cache tmp w = Some (Thrown e w') \<and>
                     files w' = files w \<and> execs w' = execs w \<and>
                     ((\<forall>key \<in> set (map fst (storedBuildState proj)).
                          map_of (storedPackages proj) key \<noteq> None) \<longrightarrow>
                      e = Error (''The nodeLinker '' @ nodeLinker cfg @
                                 '' is not supported for isolated Nix builds'')))) \<and>
         generate_checks ext cfg proj w =
           Some (w\<lparr>reports := reports w @
                   [(ReportError, ''Only '' @ [CHR 0x27] @ ''pnp'' @ [CHR 0x27] @
                      '' is currently supported for the '' @ [CHR 0x27] @ ''nodeLinker'' @
                      [CHR 0x27] @ '' setting.'')]\<rparr>)"
proof (intro conjI impI)
  assume nt: "\<not> startsWith (cwd proj) (tempDir ext)" and occ: "occurrences cfg proj \<noteq> []"
  let ?entries = "cacheEntries ext proj cache (readdir w (cache_cwd cache))"
  from isolated_unsupported [OF assms occ, of ext ?entries] obtain e where
    e: "isolated ext cfg proj ?entries = Some (Inl e)"
    and msg: "(\<forall>key \<in> set (map fst (storedBuildState proj)). map_of (storedPackages proj) key \<noteq> None) \<longrightarrow>
              e = Error (''The nodeLinker '' @ nodeLinker cfg @
                         '' is not supported for isolated Nix builds'')"
    by blast
  obtain y c w1 where s: "sanity_checks ext cfg proj w = (y, c, w1)"
    by (cases "sanity_checks ext cfg proj w")
  from nt e s have "generator ext cfg proj cache tmp w = Some (Thrown e w1)"
    by (simp add: generator_unfold Let_def)
  with sanity_checks_frame [OF s] msg
  show "\<exists>e w'. generator ext cfg proj cache tmp w = Some (Thrown e w') \<and>
                     files w' = files w \<and> execs w' = execs w \<and>
                     ((\<forall>key \<in> set (map fst (storedBuildState proj)).
                          map_of (storedPackages proj) key \<noteq> None) \<longrightarrow>
                      e = Error (''The nodeLinker '' @ nodeLinker cfg @
                                 '' is not supported for isolated Nix builds''))"
    by blast
next
  show "generate_checks ext cfg proj w =
           Some (w\<lparr>reports := reports w @
                   [(ReportError, ''Only '' @ [CHR 0x27] @ ''pnp'' @ [CHR 0x27] @
                      '' is currently supported for the '' @ [CHR 0x27] @ ''nodeLinker'' @
                      [CHR 0x27] @ '' setting.'')]\<rparr>)"
    using assms by (simp add: generate_checks_def report_def)
qed

lemma native_occurrences:
  "occurrences cfg' native_project =
     (if ''native-lib'' \<in> set (isolatedNixBuilds cfg')
      then [mk_pkg ''native-lib'' ''virtual:w1#npm:2'' [''zlib''],
            mk_pkg ''native-lib'' ''virtual:w2#npm:2'' [''zlib'']] else [])"
  by (simp add: occurrences_def matching_def native_project_def sample_defs)

text \<open>The project with the two instances of \<open>native-lib\<close>, linked with \<^verbatim>\<open>node-modules\<close>.\<close>

theorem unsupported_linker_aborts_isolated_builds_witness:
  "nodeLinker (sample_cfg\<lparr>nodeLinker := ''node-modules''\<rparr>) \<noteq> ''pnp'' \<and>
   \<not> startsWith (cwd native_project) (tempDir sample_ext) \<and>
   occurrences (sample_cfg\<lparr>nodeLinker := ''node-modules''\<rparr>) native_project \<noteq> [] \<and>
   generator sample_ext (sample_cfg\<lparr>nodeLinker := ''node-modules''\<rparr>) native_project
     sample_cache ''/tmp/xfs-9'' sample_world =
   Some (Thrown (Error ''The nodeLinker node-modules is not supported for isolated Nix builds'')
           sample_world)"
proof -
  let ?cfg = "sample_cfg\<lparr>nodeLinker := ''node-modules''\<rparr>"
  have h1: "nodeLinker ?cfg \<noteq> ''pnp''" by simp
  have h2: "\<not> startsWith (cwd native_project) (tempDir sample_ext)"
    by (simp add: native_project_def sample_defs)
  have h3: "occurrences ?cfg native_project \<noteq> []"
    by (simp add: native_occurrences sample_cfg_def)
  have keys: "\<forall>key \<in> set (map fst (storedBuildState native_project)).
               map_of (storedPackages native_project) key \<noteq> None"
    by (simp add: native_project_def sample_defs)
  have san: "snd (snd (sanity_checks sample_ext ?cfg native_project sample_world)) = sample_world"
    by (simp add: sanity_checks_def native_project_def sample_cfg_def sample_defs)
  from unsupported_linker_aborts_isolated_builds [OF h1, of native_project sample_ext
         sample_cache "''/tmp/xfs-9''" sample_world] h2 h3 keys
  obtain w' where g: "generator sample_ext ?cfg native_project sample_cache ''/tmp/xfs-9'' sample_world
      = Some (Thrown (Error (''The nodeLinker '' @ nodeLinker ?cfg @
                                 '' is not supported for isolated Nix builds'')) w')"
    by blast
  from isolated_unsupported [OF h1 h3] obtain e where
    "isolated sample_ext ?cfg native_project
       (cacheEntries sample_ext native_project sample_cache
          (readdir sample_world (cache_cwd sample_cache))) = Some (Inl e)"
    by blast
  with g have "w' = sample_world"
    using h2 san by (simp add: generator_unfold Let_def)
  with g h1 h2 h3 show ?thesis by simp
qed

text \<open>C3 as stated fails when no installed package is on the list of isolated builds: the
  linker is never looked at, and the build description is written.\<close>

theorem unsupported_linker_counterexample:
  "nodeLinker (sample_cfg\<lparr>nodeLinker := ''node-modules'', isolatedNixBuilds := []\<rparr>) \<noteq> ''pnp'' \<and>
   map_option thrown
     (generator sample_ext (sample_cfg\<lparr>nodeLinker := ''node-modules'', isolatedNixBuilds := []\<rparr>)
        native_project sample_cache ''/tmp/xfs-9'' sample_world) = Some None \<and>
   map_option (\<lambda>oc. files (world_of oc) ''/proj/yarn-project.nix'' = None)
     (generator sample_ext (sample_cfg\<lparr>nodeLinker := ''node-modules'', isolatedNixBuilds := []\<rparr>)
        native_project sample_cache ''/tmp/xfs-9'' sample_world) = Some False"
proof -
  let ?cfg = "sample_cfg\<lparr>nodeLinker := ''node-modules'', isolatedNixBuilds := []\<rparr>"
  let ?st0 = "\<lparr>isolatedPackages = [], isolatedIntegration = [], isolatedCode = []\<rparr>"
  have h2: "\<not> startsWith (cwd native_project) (tempDir sample_ext)"
    by (simp add: native_project_def sample_defs)
  have iso: "isolated sample_ext ?cfg native_project entries = Some (Inr ?st0)" for entries
    by (simp add: isolated_def isolated_step_def native_project_def sample_defs)
  have pre: "\<not> enableNixPreload ?cfg" by (simp add: sample_cfg_def)
  have nix: "nixExprPath ?cfg = ''/proj/yarn-project.nix''" by (simp add: sample_cfg_def)
  have san: "snd (snd (sanity_checks sample_ext ?cfg native_project sample_world)) = sample_world"
    by (simp add: sanity_checks_def native_project_def sample_cfg_def sample_defs)
  have w1: "writable sample_ext sample_world ''/proj/yarn-project.nix''"
    by (simp add: writable_def sample_world_def sample_defs)
  have w2: "writable sample_ext (written ''/proj/yarn-project.nix'' t sample_world) ''/proj/default.nix''" for t
    by (simp add: writable_def sample_world_def sample_defs)
  have paths: "defaultExprPath sample_ext native_project = ''/proj/default.nix''"
    "flakeExprPath sample_ext native_project = ''/proj/flake.nix''"
    by (simp_all add: defaultExprPath_def flakeExprPath_def native_project_def sample_defs)
  have wd: "\<exists>w3. write_default sample_ext ?cfg native_project
                   (written ''/proj/yarn-project.nix'' t sample_world) = Inr w3 \<and>
                 files w3 ''/proj/yarn-project.nix'' = Some t" for t
    by (simp add: write_default_def paths writeFile_writable [OF w2])
  let ?t = "projectExpr sample_ext ?cfg native_project
              (fst (sanity_checks sample_ext ?cfg native_project sample_world))
              (fst (snd (sanity_checks sample_ext ?cfg native_project sample_world)))
              (cacheEntries sample_ext native_project sample_cache
                 (readdir sample_world (cache_cwd sample_cache))) ?st0"
  from wd [of ?t] obtain w3 where
    w3: "write_default sample_ext ?cfg native_project
           (written ''/proj/yarn-project.nix'' ?t sample_world) = Inr w3"
    and f3: "files w3 ''/proj/yarn-project.nix'' = Some ?t"
    by blast
  have "generator sample_ext ?cfg native_project sample_cache ''/tmp/xfs-9'' sample_world =
          Some (Returned w3)"
    using h2 by (simp add: generator_unfold Let_def iso san nix writeFile_writable [OF w1] w3
                   preload_disabled [OF pre])
  with f3 show ?thesis by simp
qed

subsection \<open>Slots and conditions in a text\<close>

lemma startsWith_Nil: "startsWith s [] = True"
  by (simp add: startsWith_def)

lemma startsWith_Cons_Cons: "startsWith (c # cs) (d # ds) = (c = d \<and> startsWith cs ds)"
  by (auto simp: startsWith_def)

lemma startsWith_Nil_Cons: "startsWith [] (d # ds) = False"
  by (simp add: startsWith_def)

lemmas startsWith_simps = startsWith_Nil startsWith_Cons_Cons startsWith_Nil_Cons

lemma has_atat_Cons: "has_atat (a # A) \<longleftrightarrow> (a = CHR ''@'' \<and> A \<noteq> [] \<and> hd A = CHR ''@'') \<or> has_atat A"
  by (cases A) auto

lemma has_atat_append:
  "has_atat (A @ B) \<longleftrightarrow>
     has_atat A \<or> has_atat B \<or> (A \<noteq> [] \<and> last A = CHR ''@'' \<and> B \<noteq> [] \<and> hd B = CHR ''@'')"
proof (induction A)
  case Nil
  show ?case by simp
next
  case (Cons a A)
  show ?case
  proof (cases A)
    case Nil
    then show ?thesis by (cases B) auto
  next
    case (Cons b A')
    with Cons.IH show ?thesis by auto
  qed
qed

text \<open>Neither a slot nor a line of a condition begins inside a text without two @ in a
  row, when the text does not end with @ or #, or what follows does not begin with @.\<close>

lemma no_marker_inside:
  assumes m: "startsWith p ''@@'' \<or> startsWith p ''#@@''"
    and h: "\<not> has_atat (a # A)"
    and b: "(last (a # A) \<noteq> CHR ''@'' \<and> last (a # A) \<noteq> CHR ''#'') \<or> rest = [] \<or> hd rest \<noteq> CHR ''@''"
  shows "\<not> startsWith (a # A @ rest) p"
proof
  assume s: "startsWith (a # A @ rest) p"
  from m consider q where "p = CHR ''@'' # CHR ''@'' # q" | q where "p = CHR ''#'' # CHR ''@'' # CHR ''@'' # q"
    by (cases p rule: list.exhaust; cases "tl p"; cases "tl (tl p)") (auto simp: startsWith_simps)
  then show False
  proof cases
    case 1
    with s have a: "a = CHR ''@''" and t: "startsWith (A @ rest) (CHR ''@'' # q)"
      by (simp_all add: startsWith_simps)
    show False
    proof (cases A)
      case Nil
      with t a b show False by (cases rest) (auto simp: startsWith_simps)
    next
      case (Cons b' A')
      with t a h show False by (auto simp: startsWith_simps)
    qed
  next
    case 2
    with s have a: "a = CHR ''#''" and t: "startsWith (A @ rest) (CHR ''@'' # CHR ''@'' # q)"
      by (simp_all add: startsWith_simps)
    show False
    proof (cases A)
      case Nil
      with t a b show False by (cases rest) (auto simp: startsWith_simps)
    next
      case (Cons b' A')
      show False
      proof (cases A')
        case Nil
        with Cons t a b show False by (cases rest) (auto simp: startsWith_simps)
      next
        case (Cons c' A'')
        with \<open>A = b' # A'\<close> t h show False by (auto simp: startsWith_simps)
      qed
    qed
  qed
qed

lemma split_at_skip:
  assumes m: "startsWith p ''@@'' \<or> startsWith p ''#@@''"
    and h: "\<not> has_atat A"
    and b: "A = [] \<or> (last A \<noteq> CHR ''@'' \<and> last A \<noteq> CHR ''#'') \<or> rest = [] \<or> hd rest \<noteq> CHR ''@''"
  shows "split_at p (A @ rest) = map_option (\<lambda>(pre, post). (A @ pre, post)) (split_at p rest)"
  using h b
proof (induction A)
  case Nil
  show ?case by (simp add: option.map_ident case_prod_unfold)
next
  case (Cons a A)
  from Cons.prems have b': "(last (a # A) \<noteq> CHR ''@'' \<and> last (a # A) \<noteq> CHR ''#'') \<or> rest = [] \<or> hd rest \<noteq> CHR ''@''"
    by simp
  from no_marker_inside [OF m Cons.prems(1) b'] have n: "\<not> startsWith (a # A @ rest) p" .
  from Cons.prems(1) have h': "\<not> has_atat A" by (simp add: has_atat_Cons)
  from Cons.prems(2) have b'': "A = [] \<or> (last A \<noteq> CHR ''@'' \<and> last A \<noteq> CHR ''#'') \<or> rest = [] \<or> hd rest \<noteq> CHR ''@''"
    by (cases A) auto
  from Cons.IH [OF h' b''] n show ?case
    by (simp add: option.map_comp comp_def case_prod_unfold)
qed

lemma replace_all_skip:
  assumes m: "startsWith p ''@@'' \<or> startsWith p ''#@@''"
    and h: "\<not> has_atat A"
    and b: "A = [] \<or> (last A \<noteq> CHR ''@'' \<and> last A \<noteq> CHR ''#'') \<or> rest = [] \<or> hd rest \<noteq> CHR ''@''"
  shows "replace_all p v (A @ rest) = A @ replace_all p v rest"
proof -
  from m have p: "p \<noteq> []" by (auto simp: startsWith_simps)
  show ?thesis
    by (subst (1 2) replace_all.simps)
       (simp add: p split_at_skip [OF m h b] split: option.splits)
qed

lemma replace_all_Nil: "replace_all p v [] = []"
  by (subst replace_all.simps) (simp split: option.splits)

lemma replace_all_Cons:
  "p \<noteq> [] \<Longrightarrow> replace_all p v (c # cs) =
     (if startsWith (c # cs) p then v @ replace_all p v (drop (length p) (c # cs))
      else c # replace_all p v cs)"
  by (subst (1 3) replace_all.simps) (simp split: option.splits)

lemma unlines_Nil: "unlines [] = []"
  and unlines_Cons: "unlines (l # ls) = l @ CHR 0x0A # unlines ls"
  and unlines_append: "unlines (xs @ ys) = unlines xs @ unlines ys"
  by (simp_all add: unlines_def)

lemma has_atat_unlines: "has_atat (unlines ls) \<longleftrightarrow> list_ex has_atat ls"
proof (induction ls)
  case Nil
  show ?case by (simp add: unlines_Nil)
next
  case (Cons l ls)
  have "has_atat (l @ CHR 0x0A # unlines ls) \<longleftrightarrow> has_atat l \<or> has_atat (unlines ls)"
    by (auto simp: has_atat_append has_atat_Cons)
  with Cons show ?case by (simp add: unlines_Cons)
qed

lemma last_unlines: "ls \<noteq> [] \<Longrightarrow> last (unlines ls) = CHR 0x0A"
  by (induction ls rule: rev_induct) (simp_all add: unlines_def)

lemma unlines_boundary:
  "unlines ls = [] \<or> (last (unlines ls) \<noteq> CHR ''@'' \<and> last (unlines ls) \<noteq> CHR ''#'') \<or> P"
  by (cases ls) (simp_all add: unlines_Nil last_unlines)

lemma replace_all_unlines:
  assumes "startsWith p ''@@'' \<or> startsWith p ''#@@''" and "\<not> list_ex has_atat ls"
  shows "replace_all p v (unlines ls @ rest) = unlines ls @ replace_all p v rest"
  using assms by (intro replace_all_skip unlines_boundary) (simp_all add: has_atat_unlines)

lemma split_at_unlines:
  assumes "startsWith p ''@@'' \<or> startsWith p ''#@@''" and "\<not> list_ex has_atat ls"
  shows "split_at p (unlines ls @ rest) =
           map_option (\<lambda>(pre, post). (unlines ls @ pre, post)) (split_at p rest)"
  using assms by (intro split_at_skip unlines_boundary) (simp_all add: has_atat_unlines)

lemma replace_all_value:
  assumes "startsWith p ''@@'' \<or> startsWith p ''#@@''" and "\<not> has_atat x" and "c \<noteq> CHR ''@''"
  shows "replace_all p v (x @ c # rest) = x @ replace_all p v (c # rest)"
  using assms by (intro replace_all_skip) simp_all

lemma split_at_value:
  assumes "startsWith p ''@@'' \<or> startsWith p ''#@@''" and "\<not> has_atat x" and "c \<noteq> CHR ''@''"
  shows "split_at p (x @ c # rest) =
           map_option (\<lambda>(pre, post). (x @ pre, post)) (split_at p (c # rest))"
  using assms by (intro split_at_skip) simp_all

lemma tmpl_clean:
  "\<not> list_ex has_atat tmpl_head" "\<not> list_ex has_atat tmpl_common"
  "\<not> list_ex has_atat tmpl_isolated_support" "\<not> list_ex has_atat tmpl_project_head"
  "\<not> list_ex has_atat tmpl_configure" "\<not> list_ex has_atat tmpl_project_tail"
  by (simp_all add: tmpl_head_def tmpl_common_def tmpl_isolated_support_def tmpl_project_head_def
        tmpl_configure_def tmpl_project_tail_def)

lemmas scan_simps =
  replace_all_Cons replace_all_Nil replace_all_unlines replace_all_value startsWith_simps

lemma fill_unlines:
  assumes "\<not> list_ex has_atat ls"
  shows "fill pn yp lf cf ce isol integ (unlines ls @ R) = unlines ls @ fill pn yp lf cf ce isol integ R"
  using assms by (simp add: fill_def render_var_def replace_all_unlines startsWith_simps)

lemma fill_Nil: "fill pn yp lf cf ce isol integ [] = []"
  by (simp add: fill_def render_var_def replace_all_Nil)

lemma fill_paths:
  assumes "\<not> has_atat yp" "\<not> has_atat lf" "\<not> has_atat cf"
  shows "fill pn yp lf cf ce isol integ
           (''  yarnPath = ./@@YARN_PATH@@;\<newline>  lockfile = ./@@LOCKFILE@@;\<newline>  cacheFolder = @@CACHE_FOLDER@@;\<newline>'' @ R) =
         ''  yarnPath = ./'' @ yp @ '';\<newline>  lockfile = ./'' @ lf @ '';\<newline>  cacheFolder = '' @ cf @ '';\<newline>'' @
         fill pn yp lf cf ce isol integ R"
  using assms by (simp add: fill_def render_var_def scan_simps)

lemma fill_if:
  "fill pn yp lf cf ce isol integ (''#@@ IF NEED_ISOLATED_BUILD_SUPPRORT\<newline>'' @ R) =
     ''#@@ IF NEED_ISOLATED_BUILD_SUPPRORT\<newline>'' @ fill pn yp lf cf ce isol integ R"
  by (simp add: fill_def render_var_def scan_simps)

lemma fill_endif:
  "fill pn yp lf cf ce isol integ (''#@@ ENDIF NEED_ISOLATED_BUILD_SUPPRORT\<newline>'' @ R) =
     ''#@@ ENDIF NEED_ISOLATED_BUILD_SUPPRORT\<newline>'' @ fill pn yp lf cf ce isol integ R"
  by (simp add: fill_def render_var_def scan_simps)

lemma fill_name:
  assumes "\<not> has_atat pn"
  shows "fill pn yp lf cf ce isol integ (''    name = @@PROJECT_NAME@@;\<newline>'' @ R) =
         ''    name = '' @ pn @ '';\<newline>'' @ fill pn yp lf cf ce isol integ R"
  using assms by (simp add: fill_def render_var_def scan_simps)

lemma fill_integration:
  "fill pn yp lf cf ce isol integ (''@@ISOLATED_INTEGRATION@@\<newline>'' @ R) =
     integ @ ''\<newline>'' @ fill pn yp lf cf ce isol integ R"
  by (simp add: fill_def render_var_def scan_simps)

lemma fill_end:
  assumes "\<not> has_atat ce" "\<not> has_atat isol"
  shows "fill pn yp lf cf ce isol integ
           (''@@CACHE_ENTRIES@@\<newline>@@ISOLATED@@\<newline>in optionalOverride overrideAttrs project\<newline>'' @ R) =
         ce @ ''\<newline>'' @ isol @ ''\<newline>in optionalOverride overrideAttrs project\<newline>'' @
         fill pn yp lf cf ce isol integ R"
  using assms by (simp add: fill_def render_var_def scan_simps)

lemma projectExprTmpl_pieces:
  "projectExprTmpl =
     unlines tmpl_head @
     ''  yarnPath = ./@@YARN_PATH@@;\<newline>  lockfile = ./@@LOCKFILE@@;\<newline>  cacheFolder = @@CACHE_FOLDER@@;\<newline>'' @
     unlines tmpl_common @
     ''#@@ IF NEED_ISOLATED_BUILD_SUPPRORT\<newline>'' @
     unlines tmpl_isolated_support @
     ''#@@ ENDIF NEED_ISOLATED_BUILD_SUPPRORT\<newline>'' @
     unlines tmpl_project_head @
     ''    name = @@PROJECT_NAME@@;\<newline>'' @
     unlines tmpl_configure @
     ''@@ISOLATED_INTEGRATION@@\<newline>'' @
     unlines tmpl_project_tail @
     ''@@CACHE_ENTRIES@@\<newline>@@ISOLATED@@\<newline>in optionalOverride overrideAttrs project\<newline>'' @ []"
  by (simp add: projectExprTmpl_def unlines_append unlines_Cons unlines_Nil)

lemma split_at_hit: "p \<noteq> [] \<Longrightarrow> split_at p (p @ rest) = Some ([], rest)"
  by (cases p) (simp_all add: startsWith_def)

lemma split_at_clean:
  assumes "startsWith p ''@@'' \<or> startsWith p ''#@@''" and "\<not> has_atat Y"
  shows "split_at p Y = None"
proof -
  from assms(1) have "p \<noteq> []" by (auto simp: startsWith_simps)
  with split_at_skip [OF assms(1) assms(2), of "[]"] show ?thesis by simp
qed

lemma cond_blocks_once:
  assumes X: "\<not> has_atat X" "X = [] \<or> last X = CHR 0x0A"
    and B: "\<not> has_atat B" "B = [] \<or> last B = CHR 0x0A"
    and Y: "\<not> has_atat Y"
  shows "cond_blocks nm keep
           (X @ (''#@@ IF '' @ nm @ ''\<newline>'') @ B @ (''#@@ ENDIF '' @ nm @ ''\<newline>'') @ Y) =
         X @ (if keep then B else []) @ Y"
proof -
  let ?open = "''#@@ IF '' @ nm @ ''\<newline>''"
  let ?close = "''#@@ ENDIF '' @ nm @ ''\<newline>''"
  have m: "startsWith ?open ''@@'' \<or> startsWith ?open ''#@@''"
    "startsWith ?close ''@@'' \<or> startsWith ?close ''#@@''"
    by (simp_all add: startsWith_simps)
  from X(2) have bx: "X = [] \<or> (last X \<noteq> CHR ''@'' \<and> last X \<noteq> CHR ''#'') \<or> R = [] \<or> hd R \<noteq> CHR ''@''" for R
    by auto
  from B(2) have bb: "B = [] \<or> (last B \<noteq> CHR ''@'' \<and> last B \<noteq> CHR ''#'') \<or> R = [] \<or> hd R \<noteq> CHR ''@''" for R
    by auto
  have 1: "split_at ?open (X @ ?open @ B @ ?close @ Y) = Some (X, B @ ?close @ Y)"
    unfolding split_at_skip [OF m(1) X(1) bx] by (subst split_at_hit) simp_all
  have 2: "split_at ?close (B @ ?close @ Y) = Some (B, Y)"
    unfolding split_at_skip [OF m(2) B(1) bb] by (subst split_at_hit) simp_all
  have 3: "cond_blocks nm keep Y = Y"
    by (subst cond_blocks.simps) (simp only: split_at_clean [OF m(1) Y] option.case)
  show ?thesis
    by (subst cond_blocks.simps) (simp only: 1 2 3 option.case prod.case)
qed

lemma last_unlines_or: "unlines ls = [] \<or> last (unlines ls) = CHR 0x0A"
  by (cases ls) (simp_all add: unlines_Nil last_unlines)

lemma render_clean:
  assumes c: "\<not> has_atat pn" "\<not> has_atat yp" "\<not> has_atat lf" "\<not> has_atat cf"
    "\<not> has_atat ce" "\<not> has_atat isol" "\<not> has_atat integ"
  shows "renderTmpl projectExprTmpl
           [(''PROJECT_NAME'', TStr pn), (''YARN_PATH'', TStr yp), (''LOCKFILE'', TStr lf),
            (''CACHE_FOLDER'', TStr cf), (''CACHE_ENTRIES'', TStr ce), (''ISOLATED'', TStr isol),
            (''ISOLATED_INTEGRATION'', TStr integ), (''NEED_ISOLATED_BUILD_SUPPRORT'', TBool b)] =
         rendered pn yp lf cf ce isol integ b"
proof -
  let ?X = "unlines (tmpl_head @
       [''  yarnPath = ./'' @ yp @ '';'',
        ''  lockfile = ./'' @ lf @ '';'',
        ''  cacheFolder = '' @ cf @ '';''] @ tmpl_common)"
  let ?B = "unlines tmpl_isolated_support"
  let ?Y = "unlines (tmpl_project_head @ [''    name = '' @ pn @ '';''] @ tmpl_configure @
       [integ] @ tmpl_project_tail @ [ce, isol, ''in optionalOverride overrideAttrs project''])"
  have filled: "fill pn yp lf cf ce isol integ projectExprTmpl =
      ?X @ (''#@@ IF '' @ ''NEED_ISOLATED_BUILD_SUPPRORT'' @ ''\<newline>'') @ ?B @
           (''#@@ ENDIF '' @ ''NEED_ISOLATED_BUILD_SUPPRORT'' @ ''\<newline>'') @ ?Y"
    unfolding projectExprTmpl_pieces
    by (simp only: fill_unlines [OF tmpl_clean(1)] fill_unlines [OF tmpl_clean(2)]
          fill_unlines [OF tmpl_clean(3)] fill_unlines [OF tmpl_clean(4)]
          fill_unlines [OF tmpl_clean(5)] fill_unlines [OF tmpl_clean(6)]
          fill_paths [OF c(2) c(3) c(4)] fill_if fill_endif fill_name [OF c(1)]
          fill_integration fill_end [OF c(5) c(6)] fill_Nil)
       (simp add: unlines_append unlines_Cons unlines_Nil)
  have X: "\<not> has_atat ?X"
    using c tmpl_clean by (simp add: has_atat_unlines has_atat_append has_atat_Cons)
  have Y: "\<not> has_atat ?Y"
    using c tmpl_clean by (simp add: has_atat_unlines has_atat_append has_atat_Cons)
  have B: "\<not> has_atat ?B"
    using tmpl_clean by (simp add: has_atat_unlines)
  have "renderTmpl projectExprTmpl
           [(''PROJECT_NAME'', TStr pn), (''YARN_PATH'', TStr yp), (''LOCKFILE'', TStr lf),
            (''CACHE_FOLDER'', TStr cf), (''CACHE_ENTRIES'', TStr ce), (''ISOLATED'', TStr isol),
            (''ISOLATED_INTEGRATION'', TStr integ), (''NEED_ISOLATED_BUILD_SUPPRORT'', TBool b)] =
        cond_blocks ''NEED_ISOLATED_BUILD_SUPPRORT'' b (fill pn yp lf cf ce isol integ projectExprTmpl)"
    by (simp add: renderTmpl_def fill_def render_var_def)
  also have "\<dots> = ?X @ (if b then ?B else []) @ ?Y"
    unfolding filled by (rule cond_blocks_once [OF X last_unlines_or B last_unlines_or Y])
  also have "\<dots> = rendered pn yp lf cf ce isol integ b"
    by (simp add: rendered_def unlines_append unlines_Cons unlines_Nil)
  finally show ?thesis .
qed

lemma indent_Nil: "indent ind [] = []"
  by (simp add: indent_def)

text \<open>The text written, when no value names a slot: every value is in the place of its
  slot, and the support for isolated builds is there exactly when there is a line of
  integration.\<close>

lemma projectExpr_rendered:
  assumes "slot_free (projectExpr_vars ext cfg proj y c entries st)"
  shows "projectExpr ext cfg proj y c entries st =
           rendered
             (json ext (Some (case manifest_name proj of None \<Rightarrow> ''workspace''
                                | Some ident \<Rightarrow> stringifyIdent ext ident)))
             (ppath_relative ext (ppath_dirname ext (nixExprPath cfg)) y)
             (ppath_relative ext (ppath_dirname ext (nixExprPath cfg)) (lockfileFilename cfg))
             (json ext (Some c))
             (cacheEntriesCode ext entries)
             (join ''\<newline>'' (isolatedCode st))
             (indent ''      '' (join ''\<newline>'' (isolatedIntegration st)))
             (isolatedIntegration st \<noteq> [])"
  using assms
  by (simp add: projectExpr_def projectExpr_vars_def slot_free_def Let_def render_clean)


subsection \<open>The files a run writes (C9)\<close>

lemma existsSync_written:
  "existsSync (written p content w) q \<longleftrightarrow> q = p \<or> existsSync w q"
  by (auto simp: existsSync_def)

lemma writable_frame:
  "dirs w' = dirs w \<Longrightarrow> writable ext w' p = writable ext w p"
  by (simp add: writable_def)

lemma write_default_Inr:
  assumes "write_default ext cfg proj w = Inr w'"
  shows "(generateDefaultNix cfg \<and> \<not> existsSync w (defaultExprPath ext proj) \<and>
          \<not> existsSync w (flakeExprPath ext proj) \<and>
          w' = report Info ''A minimal default.nix was created. You may want to customize it.''
                 (written (defaultExprPath ext proj) (defaultExprTmpl ext) w)) \<or>
         (\<not> (generateDefaultNix cfg \<and> \<not> existsSync w (defaultExprPath ext proj) \<and>
             \<not> existsSync w (flakeExprPath ext proj)) \<and> w' = w)"
  using assms
  by (auto simp: write_default_def writeFile_Inr split: if_splits sum.splits)

lemma write_default_Inl:
  assumes "write_default ext cfg proj w = Inl e"
  shows "generateDefaultNix cfg \<and> \<not> existsSync w (defaultExprPath ext proj) \<and>
         \<not> existsSync w (flakeExprPath ext proj) \<and> \<not> writable ext w (defaultExprPath ext proj)"
  using assms
  by (auto simp: write_default_def split: if_splits sum.splits dest: writeFile_Inl)

text \<open>The ways in which a run of the generator ends.\<close>

lemma generator_cases [consumes 1, case_names skipped threw rejected wrapper_rejected completed]:
  assumes run: "generator ext cfg proj cache tmp w = Some oc"
  obtains
    (skipped) "startsWith (cwd proj) (tempDir ext)"
      "oc = Returned (report Info (''Skipping Nixify, because '' @ cwd proj @
                                    '' appears to be a temporary directory'') w)"
  | (threw) e where "\<not> startsWith (cwd proj) (tempDir ext)"
      "isolated ext cfg proj (cacheEntries ext proj cache (readdir w (cache_cwd cache))) = Some (Inl e)"
      "oc = Thrown e (snd (snd (sanity_checks ext cfg proj w)))"
  | (rejected) st e where "\<not> startsWith (cwd proj) (tempDir ext)"
      "isolated ext cfg proj (cacheEntries ext proj cache (readdir w (cache_cwd cache))) = Some (Inr st)"
      "\<not> writable ext w (nixExprPath cfg)"
      "oc = Thrown e (snd (snd (sanity_checks ext cfg proj w)))"
  | (wrapper_rejected) st e where "\<not> startsWith (cwd proj) (tempDir ext)"
      "isolated ext cfg proj (cacheEntries ext proj cache (readdir w (cache_cwd cache))) = Some (Inr st)"
      "writable ext w (nixExprPath cfg)"
      "write_default ext cfg proj
         (written (nixExprPath cfg)
            (projectExpr ext cfg proj (fst (sanity_checks ext cfg proj w))
               (fst (snd (sanity_checks ext cfg proj w)))
               (cacheEntries ext proj cache (readdir w (cache_cwd cache))) st)
            (snd (snd (sanity_checks ext cfg proj w)))) = Inl e"
      "oc = Thrown e
         (written (nixExprPath cfg)
            (projectExpr ext cfg proj (fst (sanity_checks ext cfg proj w))
               (fst (snd (sanity_checks ext cfg proj w)))
               (cacheEntries ext proj cache (readdir w (cache_cwd cache))) st)
            (snd (snd (sanity_checks ext cfg proj w))))"
  | (completed) st w3 where "\<not> startsWith (cwd proj) (tempDir ext)"
      "isolated ext cfg proj (cacheEntries ext proj cache (readdir w (cache_cwd cache))) = Some (Inr st)"
      "writable ext w (nixExprPath cfg)"
      "write_default ext cfg proj
         (written (nixExprPath cfg)
            (projectExpr ext cfg proj (fst (sanity_checks ext cfg proj w))
               (fst (snd (sanity_checks ext cfg proj w)))
               (cacheEntries ext proj cache (readdir w (cache_cwd cache))) st)
            (snd (snd (sanity_checks ext cfg proj w)))) = Inr w3"
      "oc = preload ext cfg cache (cacheEntries ext proj cache (readdir w (cache_cwd cache))) tmp w3"
proof (cases "startsWith (cwd proj) (tempDir ext)")
  case True
  with run skipped show ?thesis by (simp add: generator_unfold)
next
  case nt: False
  let ?entries = "cacheEntries ext proj cache (readdir w (cache_cwd cache))"
  let ?w1 = "snd (snd (sanity_checks ext cfg proj w))"
  have wr: "writable ext ?w1 p = writable ext w p" for p
    by (rule writable_frame) (rule sanity_checks_world)
  from run nt obtain r where r: "isolated ext cfg proj ?entries = Some r"
    by (cases "isolated ext cfg proj ?entries") (auto simp: generator_unfold Let_def)
  show ?thesis
  proof (cases r)
    case (Inl e)
    with run nt r threw show ?thesis by (simp add: generator_unfold Let_def)
  next
    case (Inr st)
    let ?t = "projectExpr ext cfg proj (fst (sanity_checks ext cfg proj w))
               (fst (snd (sanity_checks ext cfg proj w))) ?entries st"
    show ?thesis
    proof (cases rule: writeFile_cases [of ext ?w1 "nixExprPath cfg" ?t])
      case (rejected e)
      with run nt r Inr have "oc = Thrown e ?w1" by (simp add: generator_unfold Let_def)
      with rejected(1) nt r Inr show ?thesis using that(3) by (simp add: wr)
    next
      case accepted
      show ?thesis
      proof (cases "write_default ext cfg proj (written (nixExprPath cfg) ?t ?w1)")
        case (Inl e)
        with run nt r Inr accepted have "oc = Thrown e (written (nixExprPath cfg) ?t ?w1)"
          by (simp add: generator_unfold Let_def)
        with accepted(1) nt r Inr Inl show ?thesis using that(4) by (simp add: wr)
      next
        case (Inr w3)
        with run nt r \<open>r = Inr st\<close> accepted
        have "oc = preload ext cfg cache ?entries tmp w3"
          by (simp add: generator_unfold Let_def)
        with accepted(1) nt r \<open>r = Inr st\<close> Inr show ?thesis using that(5) by (simp add: wr)
      qed
    qed
  qed
qed

text \<open>What a run that got as far as the write of the build description leaves behind.\<close>

lemma after_write_default:
  assumes "write_default ext cfg proj w2 = Inr w3"
  shows "dirs w3 = dirs w2" "set (store w2) \<subseteq> set (store w3)"
    "files w3 = (if generateDefaultNix cfg \<and> \<not> existsSync w2 (defaultExprPath ext proj) \<and>
                    \<not> existsSync w2 (flakeExprPath ext proj)
                 then (files w2)(defaultExprPath ext proj \<mapsto> defaultExprTmpl ext)
                 else files w2)"
  using write_default_Inr [OF assms] by auto

lemma existsSync_sanity:
  "existsSync (snd (snd (sanity_checks ext cfg proj w))) p = existsSync w p"
  by (simp add: existsSync_def sanity_checks_world)


lemma run_files:
  assumes run: "generator ext cfg proj cache tmp w = Some oc"
  shows "(files (world_of oc) = files w \<and>
            (startsWith (cwd proj) (tempDir ext) \<or>
             (\<exists>e. isolated ext cfg proj (cacheEntries ext proj cache (readdir w (cache_cwd cache)))
                    = Some (Inl e)) \<or>
             \<not> writable ext w (nixExprPath cfg))) \<or>
         (\<exists>st. \<not> startsWith (cwd proj) (tempDir ext) \<and>
            isolated ext cfg proj (cacheEntries ext proj cache (readdir w (cache_cwd cache)))
              = Some (Inr st) \<and>
            writable ext w (nixExprPath cfg) \<and>
            (files (world_of oc) =
               (files w)(nixExprPath cfg \<mapsto>
                  projectExpr ext cfg proj (fst (sanity_checks ext cfg proj w))
                    (fst (snd (sanity_checks ext cfg proj w)))
                    (cacheEntries ext proj cache (readdir w (cache_cwd cache))) st) \<or>
             (\<not> existsSync w (defaultExprPath ext proj) \<and> \<not> existsSync w (flakeExprPath ext proj) \<and>
              defaultExprPath ext proj \<noteq> nixExprPath cfg \<and>
              flakeExprPath ext proj \<noteq> nixExprPath cfg \<and>
              files (world_of oc) =
                (files w)(nixExprPath cfg \<mapsto>
                   projectExpr ext cfg proj (fst (sanity_checks ext cfg proj w))
                     (fst (snd (sanity_checks ext cfg proj w)))
                     (cacheEntries ext proj cache (readdir w (cache_cwd cache))) st,
                   defaultExprPath ext proj \<mapsto> defaultExprTmpl ext))))"
  using run
proof (cases rule: generator_cases)
  case skipped
  then show ?thesis by simp
next
  case (threw e)
  then show ?thesis by (simp add: sanity_checks_world)
next
  case (rejected st e)
  then show ?thesis by (simp add: sanity_checks_world)
next
  case (wrapper_rejected st e)
  then show ?thesis by (simp add: sanity_checks_world)
next
  case (completed st w3)
  let ?t = "projectExpr ext cfg proj (fst (sanity_checks ext cfg proj w))
              (fst (snd (sanity_checks ext cfg proj w)))
              (cacheEntries ext proj cache (readdir w (cache_cwd cache))) st"
  let ?w2 = "written (nixExprPath cfg) ?t (snd (snd (sanity_checks ext cfg proj w)))"
  have ex: "existsSync ?w2 q \<longleftrightarrow> q = nixExprPath cfg \<or> existsSync w q" for q
    by (simp add: existsSync_written existsSync_sanity)
  have f2: "files ?w2 = (files w)(nixExprPath cfg \<mapsto> ?t)"
    by (simp add: sanity_checks_world)
  have "files (world_of oc) = files w3"
    unfolding completed(5) by (rule preload_frame)
  with after_write_default(3) [OF completed(4)]
  have "files (world_of oc) =
          (if generateDefaultNix cfg \<and> \<not> existsSync ?w2 (defaultExprPath ext proj) \<and>
              \<not> existsSync ?w2 (flakeExprPath ext proj)
           then (files ?w2)(defaultExprPath ext proj \<mapsto> defaultExprTmpl ext)
           else files ?w2)"
    by simp
  then have "files (world_of oc) = (files w)(nixExprPath cfg \<mapsto> ?t) \<or>
             (\<not> existsSync w (defaultExprPath ext proj) \<and> \<not> existsSync w (flakeExprPath ext proj) \<and>
              defaultExprPath ext proj \<noteq> nixExprPath cfg \<and>
              flakeExprPath ext proj \<noteq> nixExprPath cfg \<and>
              files (world_of oc) =
                (files w)(nixExprPath cfg \<mapsto> ?t, defaultExprPath ext proj \<mapsto> defaultExprTmpl ext))"
    unfolding ex f2 by (auto split: if_splits)
  with completed(1,2,3) show ?thesis by blast
qed




lemma native_cacheEntries:
  assumes "readdir w ''/proj/.yarn/cache'' = [''native-lib-npm-2.zip'', ''zlib-npm-1.zip'']"
  shows "cacheEntries sample_ext native_project sample_cache (readdir w (cache_cwd sample_cache))
     = native_entries"
  using assms
  by (simp add: cacheEntries_def cacheEntries_step_def native_project_def native_entries_def
        sample_cache_def truthy_def split_pop_def Let_def sample_defs)


lemma native_paths:
  "defaultExprPath sample_ext native_project = ''/proj/default.nix''"
  "flakeExprPath sample_ext native_project = ''/proj/flake.nix''"
  "\<not> startsWith (cwd native_project) (tempDir sample_ext)"
  by (simp_all add: defaultExprPath_def flakeExprPath_def native_project_def sample_defs)

lemma sample_listing:
  "readdir sample_world ''/proj/.yarn/cache'' = [''native-lib-npm-2.zip'', ''zlib-npm-1.zip'']"
  "readdir store_world ''/proj/.yarn/cache'' = [''native-lib-npm-2.zip'', ''zlib-npm-1.zip'']"
  "readdir other_world ''/proj/.yarn/cache'' = [''native-lib-npm-2.zip'', ''zlib-npm-1.zip'']"
  by (simp_all add: sample_world_def store_world_def other_world_def)



text \<open>When the two store paths exist, nothing is staged and \<^verbatim>\<open>nix-store\<close> is not
  called.\<close>

lemma native_preload_again:
  assumes "store w = [''/nix/store/0fnativ-native-lib@npm:2'', ''/nix/store/0fzlib--zlib@npm:1'']"
  shows "preload sample_ext sample_preload_cfg sample_cache native_entries ''/tmp/xfs-9'' w = Returned w"
  using assms
  by (simp add: preload_def stage_step_def existsSync_def native_entries_def Let_def sample_defs)

text \<open>Two cache entries whose hashes begin with the same seven characters: the
  directory of the second cannot be made, and the preload throws.\<close>

lemma preload_shared_prefix:
  "preload sample_ext sample_preload_cfg sample_cache (mk_entries [''a@npm:1'', ''b@npm:1''])
     ''/tmp/xfs-9'' (store_world\<lparr>files := (files store_world)(''/proj/.yarn/cache/a@npm:1.zip'' \<mapsto> ''PK a'')\<rparr>) =
   Thrown (Error (''EEXIST: file already exists, mkdir '' @ [CHR 0x27] @ ''/tmp/xfs-9/0f'' @ [CHR 0x27]))
     (store_world\<lparr>files := (files store_world)(''/proj/.yarn/cache/a@npm:1.zip'' \<mapsto> ''PK a'')\<rparr>)"
  by (simp add: preload_def stage_step_def existsSync_def mk_entries_def sample_preload_cfg_def
        sample_cfg_def sample_cache_def store_world_def sample_world_def Let_def sample_defs)








subsection \<open>The keys of the cache entries (C5)\<close>

lemma cacheEntries_step_keys:
  "map fst (cacheEntries_step ext proj cache cacheFiles pkg entries) =
     (if retrievable ext proj cache cacheFiles pkg
      then set_add (stringifyLocator ext pkg) (map fst entries) else map fst entries)"
proof (cases "getLocatorPath cache pkg
            (if truthy (map_of (storedChecksums proj) (locatorHash pkg))
             then map_of (storedChecksums proj) (locatorHash pkg) else None)
            (conditionalLocators proj)")
  case None
  then show ?thesis by (simp add: cacheEntries_step_def retrievable_def)
next
  case (Some path)
  then show ?thesis
    by (simp add: cacheEntries_step_def retrievable_def Let_def update_keys set_add_def)
qed

lemma cacheEntries_fold_keys:
  "map fst (fold (cacheEntries_step ext proj cache cacheFiles) pkgs entries) =
     cacheEntries_keys ext proj cache cacheFiles pkgs (map fst entries)"
  unfolding cacheEntries_keys_def
  by (induction pkgs arbitrary: entries) (simp_all add: cacheEntries_step_keys)

lemma cacheEntries_keys_set:
  "set (cacheEntries_keys ext proj cache cacheFiles pkgs keys) =
     set keys \<union> stringifyLocator ext ` {pkg \<in> set pkgs. retrievable ext proj cache cacheFiles pkg}"
  unfolding cacheEntries_keys_def
  by (induction pkgs arbitrary: keys) (auto simp: set_add_def)

text \<open>
  C5. The keys of the map \<^verbatim>\<open>cacheEntries\<close> are the locator strings of the stored packages
  with content in the cache. When no two stored packages share a locator string (yarn
  derives the hash they are stored under from the locator), a stored package is a key if and
  only if it has such content.
\<close>

theorem cacheEntries_are_the_retrievable_packages:
  "fst ` set (cacheEntries ext proj cache cacheFiles) =
     stringifyLocator ext `
       {pkg \<in> snd ` set (storedPackages proj). retrievable ext proj cache cacheFiles pkg} \<and>
   (inj_on (stringifyLocator ext) (snd ` set (storedPackages proj)) \<longrightarrow>
      (\<forall>pkg \<in> snd ` set (storedPackages proj).
         (map_of (cacheEntries ext proj cache cacheFiles) (stringifyLocator ext pkg) \<noteq> None)
           = retrievable ext proj cache cacheFiles pkg))"
proof -
  let ?S = "snd ` set (storedPackages proj)"
  let ?R = "{pkg \<in> ?S. retrievable ext proj cache cacheFiles pkg}"
  have "set (map fst (cacheEntries ext proj cache cacheFiles)) = stringifyLocator ext ` ?R"
    unfolding cacheEntries_def cacheEntries_fold_keys cacheEntries_keys_set by simp
  then have keys: "fst ` set (cacheEntries ext proj cache cacheFiles) = stringifyLocator ext ` ?R"
    by simp
  have "(map_of (cacheEntries ext proj cache cacheFiles) (stringifyLocator ext pkg) \<noteq> None)
           = retrievable ext proj cache cacheFiles pkg"
    if inj: "inj_on (stringifyLocator ext) ?S" and pkg: "pkg \<in> ?S" for pkg
  proof -
    have "stringifyLocator ext pkg \<in> stringifyLocator ext ` ?R \<longleftrightarrow> pkg \<in> ?R"
    proof
      assume "stringifyLocator ext pkg \<in> stringifyLocator ext ` ?R"
      then obtain q where q: "q \<in> ?R" "stringifyLocator ext pkg = stringifyLocator ext q" by blast
      with inj pkg have "pkg = q" by (auto dest: inj_onD)
      with q show "pkg \<in> ?R" by simp
    qed blast
    with pkg keys show ?thesis by (simp add: map_of_eq_None_iff)
  qed
  with keys show ?thesis by blast
qed

text \<open>In the sample project the two npm packages are in the cache; the workspace and the
  virtual instances have no file there and are no keys.\<close>

theorem cacheEntries_are_the_retrievable_packages_witness:
  "inj_on (stringifyLocator sample_ext) (snd ` set (storedPackages native_project)) \<and>
   map fst (cacheEntries sample_ext native_project sample_cache
              [''native-lib-npm-2.zip'', ''zlib-npm-1.zip''])
     = [''native-lib@npm:2'', ''zlib@npm:1''] \<and>
   retrievable sample_ext native_project sample_cache [''native-lib-npm-2.zip'', ''zlib-npm-1.zip'']
     (mk_pkg ''zlib'' ''npm:1'' []) \<and>
   \<not> retrievable sample_ext native_project sample_cache [''native-lib-npm-2.zip'', ''zlib-npm-1.zip'']
     (mk_pkg ''app'' ''workspace:.'' [''native-lib'']) \<and>
   map_of (cacheEntries sample_ext native_project sample_cache
             [''native-lib-npm-2.zip'', ''zlib-npm-1.zip'']) ''app@workspace:.'' = None"
proof -
  let ?files = "[''native-lib-npm-2.zip'', ''zlib-npm-1.zip'']"
  have inj: "inj_on (stringifyLocator sample_ext) (snd ` set (storedPackages native_project))"
    by (simp add: native_project_def sample_defs)
  have app: "mk_pkg ''app'' ''workspace:.'' [''native-lib''] \<in> snd ` set (storedPackages native_project)"
    by (simp add: native_project_def sample_defs)
  have r1: "retrievable sample_ext native_project sample_cache ?files (mk_pkg ''zlib'' ''npm:1'' [])"
    by (simp add: retrievable_def native_project_def sample_cache_def truthy_def split_pop_def
          sample_defs)
  have r2: "\<not> retrievable sample_ext native_project sample_cache ?files
               (mk_pkg ''app'' ''workspace:.'' [''native-lib''])"
    by (simp add: retrievable_def native_project_def sample_cache_def truthy_def sample_defs)
  have keys: "map fst (cacheEntries sample_ext native_project sample_cache ?files)
     = [''native-lib@npm:2'', ''zlib@npm:1'']"
    using native_cacheEntries [OF sample_listing(1)]
    by (simp add: sample_world_def sample_cache_def native_entries_def)
  from cacheEntries_are_the_retrievable_packages
         [of sample_ext native_project sample_cache ?files] inj app r2
  have "map_of (cacheEntries sample_ext native_project sample_cache ?files)
          (stringifyLocator sample_ext (mk_pkg ''app'' ''workspace:.'' [''native-lib''])) = None"
    by blast
  then have "map_of (cacheEntries sample_ext native_project sample_cache ?files) ''app@workspace:.'' = None"
    by (simp add: sample_defs)
  with inj keys r1 r2 show ?thesis by simp
qed

subsection \<open>The text depends on the input only (C7)\<close>

lemma built_sorted:
  assumes "built ext proj entries code pkg"
  shows "\<exists>ls. code = isolatedCode_entry ext pkg (devirt_of ext proj pkg) ls \<and>
              sorted ls \<and> distinct ls \<and> set ls = closure_keys ext proj entries pkg"
proof -
  from assms obtain out where run: "collectTree ext proj entries pkg [] = Some (Inr out)"
    and code: "code = isolatedCode_entry ext pkg (devirt_of ext proj pkg) (sort out)"
    by (auto simp: built_def)
  from collectTree_ok [OF run] have "set out = closure_keys ext proj entries pkg" "distinct out"
    by (simp_all add: walk_ok_def extends_def)
  with code show ?thesis by (intro exI [of _ "sort out"]) simp
qed

lemma isolated_targets:
  assumes "isolated ext cfg proj entries = Some (Inr st)"
  shows "isolatedPackages st =
           map (devirt_of ext proj) (first_occurrences ext proj [] (occurrences cfg proj)) \<and>
         list_all2 (\<lambda>code pkg. \<exists>ls. code = isolatedCode_entry ext pkg (devirt_of ext proj pkg) ls \<and>
                       sorted ls \<and> distinct ls \<and> set ls = closure_keys ext proj entries pkg)
           (isolatedCode st) (first_occurrences ext proj [] (occurrences cfg proj))"
proof -
  from assms obtain st0 where
    loop: "for_of (map fst (storedBuildState proj)) (isolated_step ext cfg proj entries)
       \<lparr>isolatedPackages = [], isolatedIntegration = [], isolatedCode = []\<rparr> = Some (Inr st0)"
    and st: "st = (if isolatedIntegration st0 \<noteq> []
           then st0\<lparr>isolatedIntegration := isolatedIntegration st0 @
                     [''echo '' @ [CHR 0x27] @ ''running yarn install'' @ [CHR 0x27]]\<rparr>
           else st0)"
    by (rule isolated_Inr)
  note l = isolated_loop_Inr [OF loop, folded occurrences_def]
  from st have same: "isolatedPackages st = isolatedPackages st0" "isolatedCode st = isolatedCode st0"
    by (simp_all split: if_splits)
  from l have p: "isolatedPackages st0 =
           map (devirt_of ext proj) (first_occurrences ext proj [] (occurrences cfg proj))"
    by simp
  from l have "list_all2 (built ext proj entries) (isolatedCode st0)
                 (first_occurrences ext proj [] (occurrences cfg proj))"
    by auto
  then have "list_all2 (\<lambda>code pkg. \<exists>ls. code = isolatedCode_entry ext pkg (devirt_of ext proj pkg) ls \<and>
                       sorted ls \<and> distinct ls \<and> set ls = closure_keys ext proj entries pkg)
           (isolatedCode st0) (first_occurrences ext proj [] (occurrences cfg proj))"
    by (rule list_all2_mono) (rule built_sorted)
  with p same show ?thesis by simp
qed



subsection \<open>The text without isolated builds (C8)\<close>

lemma isolated_loop_no_match:
  assumes "concat (map (matching cfg proj) keys) = []"
    and "\<forall>key \<in> set keys. map_of (storedPackages proj) key \<noteq> None"
  shows "for_of keys (isolated_step ext cfg proj entries) st = Some (Inr st)"
  using assms
proof (induction keys)
  case Nil
  show ?case by simp
next
  case (Cons key keys)
  from Cons.prems obtain pkg where pkg: "map_of (storedPackages proj) key = Some pkg" by auto
  with Cons.prems(1) have "name pkg \<notin> set (isolatedNixBuilds cfg)"
    by (auto simp: matching_def split: if_splits)
  with pkg have "isolated_step ext cfg proj entries key st = Some (Inr st)"
    by (simp add: isolated_step_def)
  with Cons show ?case by simp
qed

lemma isolated_no_match:
  assumes "occurrences cfg proj = []"
    and "\<forall>key \<in> set (map fst (storedBuildState proj)). map_of (storedPackages proj) key \<noteq> None"
  shows "isolated ext cfg proj entries =
           Some (Inr \<lparr>isolatedPackages = [], isolatedIntegration = [], isolatedCode = []\<rparr>)"
  using isolated_loop_no_match [OF assms(1) [unfolded occurrences_def] assms(2)]
  by (simp add: isolated_def)

lemma isolated_integration:
  assumes "isolated ext cfg proj entries = Some (Inr st)"
  shows "isolatedIntegration st =
           (if occurrences cfg proj = [] then []
            else ''# Copy in isolated builds.'' #
                 concat (map (\<lambda>pkg. inject_lines ext cfg proj pkg (devirt_of ext proj pkg))
                           (occurrences cfg proj)) @
                 [''echo '' @ [CHR 0x27] @ ''running yarn install'' @ [CHR 0x27]])"
proof -
  from assms obtain st0 where
    loop: "for_of (map fst (storedBuildState proj)) (isolated_step ext cfg proj entries)
       \<lparr>isolatedPackages = [], isolatedIntegration = [], isolatedCode = []\<rparr> = Some (Inr st0)"
    and st: "st = (if isolatedIntegration st0 \<noteq> []
           then st0\<lparr>isolatedIntegration := isolatedIntegration st0 @
                     [''echo '' @ [CHR 0x27] @ ''running yarn install'' @ [CHR 0x27]]\<rparr>
           else st0)"
    by (rule isolated_Inr)
  from isolated_loop_Inr [OF loop, folded occurrences_def]
  have "isolatedIntegration st0 = integration_after ext cfg proj [] (occurrences cfg proj)"
    by simp
  with st show ?thesis by (auto simp: integration_after_def)
qed

lemma isolated_isolatedNixBuilds_Nil:
  "\<forall>key \<in> set (map fst (storedBuildState proj)). map_of (storedPackages proj) key \<noteq> None \<Longrightarrow>
   isolated ext (cfg\<lparr>isolatedNixBuilds := []\<rparr>) proj entries =
     Some (Inr \<lparr>isolatedPackages = [], isolatedIntegration = [], isolatedCode = []\<rparr>)"
  by (rule isolated_no_match) (auto simp: occurrences_def matching_def split: option.splits)

text \<open>
  C8. Take a run outside a temporary directory whose loop over the build state returns.
  When no installed package is on the list of isolated builds, there is no isolated build
  and no line of integration; when there is an occurrence, the lines of integration are
  the injection steps. When moreover no value handed to the template names a slot (has
  two @ in a row), so that replacing one slot after the other is the same as filling all
  of them at once, the text rendered is the template with every value in the place of
  its slot, with the support for isolated builds exactly when there is an occurrence to
  inject, and without the two lines of the condition. With no package on the list it is
  the template with the lines of the condition and all between them left out, and with
  nothing in the place of the block of injection steps and of the isolated builds. The
  text is what the run leaves at \<^verbatim>\<open>nixExprPath\<close> when the path can be written.
\<close>

theorem integration_block_only_with_injection_steps:
  assumes nt: "\<not> startsWith (cwd proj) (tempDir ext)"
    and iso: "isolated ext cfg proj (cacheEntries ext proj cache (readdir w (cache_cwd cache)))
                = Some (Inr st)"
  shows "(occurrences cfg proj = [] \<longrightarrow> isolatedCode st = [] \<and> isolatedIntegration st = []) \<and>
         (occurrences cfg proj \<noteq> [] \<longrightarrow>
            isolatedIntegration st =
              ''# Copy in isolated builds.'' #
              concat (map (\<lambda>pkg. inject_lines ext cfg proj pkg (devirt_of ext proj pkg))
                        (occurrences cfg proj)) @
              [''echo '' @ [CHR 0x27] @ ''running yarn install'' @ [CHR 0x27]]) \<and>
         (slot_free (projectExpr_vars ext cfg proj (fst (sanity_checks ext cfg proj w))
                       (fst (snd (sanity_checks ext cfg proj w)))
                       (cacheEntries ext proj cache (readdir w (cache_cwd cache))) st) \<longrightarrow>
            projectExpr ext cfg proj (fst (sanity_checks ext cfg proj w))
              (fst (snd (sanity_checks ext cfg proj w)))
              (cacheEntries ext proj cache (readdir w (cache_cwd cache))) st =
            rendered_with ext cfg proj (fst (sanity_checks ext cfg proj w))
              (fst (snd (sanity_checks ext cfg proj w)))
              (cacheEntries ext proj cache (readdir w (cache_cwd cache)))
              (join ''\<newline>'' (isolatedCode st))
              (indent ''      '' (join ''\<newline>'' (isolatedIntegration st)))
              (occurrences cfg proj \<noteq> []) \<and>
            (occurrences cfg proj = [] \<longrightarrow>
               projectExpr ext cfg proj (fst (sanity_checks ext cfg proj w))
                 (fst (snd (sanity_checks ext cfg proj w)))
                 (cacheEntries ext proj cache (readdir w (cache_cwd cache))) st =
               rendered_with ext cfg proj (fst (sanity_checks ext cfg proj w))
                 (fst (snd (sanity_checks ext cfg proj w)))
                 (cacheEntries ext proj cache (readdir w (cache_cwd cache))) [] [] False)) \<and>
         (writable ext w (nixExprPath cfg) \<longrightarrow>
            (\<exists>oc. generator ext cfg proj cache tmp w = Some oc \<and>
               files (world_of oc) (nixExprPath cfg) =
                 Some (projectExpr ext cfg proj (fst (sanity_checks ext cfg proj w))
                         (fst (snd (sanity_checks ext cfg proj w)))
                         (cacheEntries ext proj cache (readdir w (cache_cwd cache))) st)))"
proof (intro conjI impI)
  let ?entries = "cacheEntries ext proj cache (readdir w (cache_cwd cache))"
  let ?y = "fst (sanity_checks ext cfg proj w)"
  let ?c = "fst (snd (sanity_checks ext cfg proj w))"
  note i = isolated_integration [OF iso]
  from i have flag: "isolatedIntegration st \<noteq> [] \<longleftrightarrow> occurrences cfg proj \<noteq> []"
    by simp
  have c0: "isolatedCode st = []" and i0: "isolatedIntegration st = []"
    if "occurrences cfg proj = []"
    using isolated_targets [OF iso] i that by simp_all
  {
    assume occ: "occurrences cfg proj = []"
    from c0 [OF occ] show "isolatedCode st = []" .
    from i0 [OF occ] show "isolatedIntegration st = []" .
  }
  {
    assume "occurrences cfg proj \<noteq> []"
    with i show "isolatedIntegration st =
              ''# Copy in isolated builds.'' #
              concat (map (\<lambda>pkg. inject_lines ext cfg proj pkg (devirt_of ext proj pkg))
                        (occurrences cfg proj)) @
              [''echo '' @ [CHR 0x27] @ ''running yarn install'' @ [CHR 0x27]]"
      by simp
  }
  {
    assume clean: "slot_free (projectExpr_vars ext cfg proj ?y ?c ?entries st)"
    show r: "projectExpr ext cfg proj ?y ?c ?entries st =
         rendered_with ext cfg proj ?y ?c ?entries (join ''\<newline>'' (isolatedCode st))
           (indent ''      '' (join ''\<newline>'' (isolatedIntegration st)))
           (occurrences cfg proj \<noteq> [])"
      unfolding projectExpr_rendered [OF clean] rendered_with_def flag ..
    assume occ: "occurrences cfg proj = []"
    from r occ c0 [OF occ] i0 [OF occ]
    show "projectExpr ext cfg proj ?y ?c ?entries st =
            rendered_with ext cfg proj ?y ?c ?entries [] [] False"
      by (simp add: indent_Nil)
  }
  {
    assume wr: "writable ext w (nixExprPath cfg)"
    from nt iso have "\<exists>oc. generator ext cfg proj cache tmp w = Some oc"
      by (simp add: generator_unfold Let_def split: sum.splits)
    then obtain oc where run: "generator ext cfg proj cache tmp w = Some oc" ..
    from run_files [OF run] nt iso wr
    have "files (world_of oc) (nixExprPath cfg) = Some (projectExpr ext cfg proj ?y ?c ?entries st)"
      by auto
    with run show "\<exists>oc. generator ext cfg proj cache tmp w = Some oc \<and>
               files (world_of oc) (nixExprPath cfg) =
                 Some (projectExpr ext cfg proj ?y ?c ?entries st)"
      by blast
  }
qed

text \<open>The sample project with an empty list of isolated builds: the text written has the
  values of the project in its slots, no support for isolated builds, and nothing in
  the places of the block of integration and of the isolated builds.\<close>

theorem integration_block_only_with_injection_steps_witness:
  "\<not> startsWith (cwd native_project) (tempDir sample_ext) \<and>
   occurrences (sample_cfg\<lparr>isolatedNixBuilds := []\<rparr>) native_project = [] \<and>
   isolated sample_ext (sample_cfg\<lparr>isolatedNixBuilds := []\<rparr>) native_project
     (cacheEntries sample_ext native_project sample_cache (readdir sample_world (cache_cwd sample_cache)))
     = Some (Inr \<lparr>isolatedPackages = [], isolatedIntegration = [], isolatedCode = []\<rparr>) \<and>
   slot_free (projectExpr_vars sample_ext (sample_cfg\<lparr>isolatedNixBuilds := []\<rparr>) native_project
     ''.yarn/releases/yarn.cjs'' ''.yarn/cache'' native_entries
     \<lparr>isolatedPackages = [], isolatedIntegration = [], isolatedCode = []\<rparr>) \<and>
   writable sample_ext sample_world (nixExprPath (sample_cfg\<lparr>isolatedNixBuilds := []\<rparr>)) \<and>
   generator sample_ext (sample_cfg\<lparr>isolatedNixBuilds := []\<rparr>) native_project sample_cache
     ''/tmp/xfs-9'' sample_world =
     Some (Returned (sample_world\<lparr>
       files := (files sample_world)
          (''/proj/yarn-project.nix'' \<mapsto>
             rendered (quoted ''app'') ''.yarn/releases/yarn.cjs'' ''yarn.lock'' (quoted ''.yarn/cache'')
               (cacheEntriesCode sample_ext native_entries) [] [] False,
           ''/proj/default.nix'' \<mapsto> ''import ./yarn-project.nix''),
       reports := [(Info, ''A minimal default.nix was created. You may want to customize it.'')]\<rparr>))"
proof -
  let ?cfg = "sample_cfg\<lparr>isolatedNixBuilds := []\<rparr>"
  let ?st0 = "\<lparr>isolatedPackages = [], isolatedIntegration = [], isolatedCode = []\<rparr>"
  let ?t = "rendered (quoted ''app'') ''.yarn/releases/yarn.cjs'' ''yarn.lock'' (quoted ''.yarn/cache'')
               (cacheEntriesCode sample_ext native_entries) [] [] False"
  note nt = native_paths(3)
  have occ: "occurrences ?cfg native_project = []"
    by (simp add: native_occurrences)
  have keys: "\<forall>key \<in> set (map fst (storedBuildState native_project)).
               map_of (storedPackages native_project) key \<noteq> None"
    by (simp add: native_project_def sample_defs)
  have en: "cacheEntries sample_ext native_project sample_cache
              (readdir sample_world (cache_cwd sample_cache)) = native_entries"
    by (rule native_cacheEntries [OF sample_listing(1)])
  have iso: "isolated sample_ext ?cfg native_project
     (cacheEntries sample_ext native_project sample_cache (readdir sample_world (cache_cwd sample_cache)))
     = Some (Inr ?st0)"
    by (rule isolated_isolatedNixBuilds_Nil [OF keys])
  have san: "sanity_checks sample_ext ?cfg native_project w = (''.yarn/releases/yarn.cjs'', ''.yarn/cache'', w)" for w
    by (simp add: sanity_checks_def native_project_def sample_cfg_def sample_defs)
  have clean: "slot_free (projectExpr_vars sample_ext ?cfg native_project
     ''.yarn/releases/yarn.cjs'' ''.yarn/cache'' native_entries ?st0)"
    by (simp add: slot_free_def projectExpr_vars_def cacheEntriesCode_def native_entries_def
          native_project_def sample_cfg_def indent_def quoted_def sample_defs)
  have cfg: "nixExprPath ?cfg = ''/proj/yarn-project.nix''" "generateDefaultNix ?cfg"
    "\<not> enableNixPreload ?cfg"
    by (simp_all add: sample_cfg_def)
  have w: "writable sample_ext sample_world ''/proj/yarn-project.nix''"
    "writable sample_ext (written ''/proj/yarn-project.nix'' t sample_world) ''/proj/default.nix''" for t
    by (simp_all add: writable_def sample_world_def sample_defs)
  have vals: "rendered_with sample_ext ?cfg native_project ''.yarn/releases/yarn.cjs'' ''.yarn/cache''
                  native_entries [] [] False = ?t"
    by (simp add: rendered_with_def native_project_def sample_cfg_def sample_defs)
  from integration_block_only_with_injection_steps
         [of native_project sample_ext ?cfg sample_cache sample_world ?st0 "''/tmp/xfs-9''"]
       nt iso clean occ
  have rt: "projectExpr sample_ext ?cfg native_project ''.yarn/releases/yarn.cjs'' ''.yarn/cache''
                native_entries ?st0 = ?t"
    by (simp add: san en vals indent_Nil)
  have ex: "\<not> existsSync sample_world ''/proj/default.nix''" "\<not> existsSync sample_world ''/proj/flake.nix''"
    by (simp_all add: existsSync_def sample_world_def)
  have tmpl: "defaultExprTmpl sample_ext = ''import ./yarn-project.nix''"
    by (simp add: sample_ext_def)
  have wd: "write_default sample_ext ?cfg native_project
               (written ''/proj/yarn-project.nix'' ?t sample_world) =
             Inr (report Info ''A minimal default.nix was created. You may want to customize it.''
                    (written ''/proj/default.nix'' ''import ./yarn-project.nix''
                       (written ''/proj/yarn-project.nix'' ?t sample_world)))"
    using ex by (simp add: write_default_def cfg native_paths existsSync_written
                    writeFile_writable [OF w(2)] tmpl)
  have "generator sample_ext ?cfg native_project sample_cache ''/tmp/xfs-9'' sample_world =
          Some (Returned
            (report Info ''A minimal default.nix was created. You may want to customize it.''
               (written ''/proj/default.nix'' ''import ./yarn-project.nix''
                  (written ''/proj/yarn-project.nix'' ?t sample_world))))"
    using nt iso
    by (simp add: generator_unfold Let_def en san rt cfg writeFile_writable [OF w(1)] wd
          preload_disabled)
  then have run: "generator sample_ext ?cfg native_project sample_cache ''/tmp/xfs-9'' sample_world =
     Some (Returned (sample_world\<lparr>
       files := (files sample_world)
          (''/proj/yarn-project.nix'' \<mapsto> ?t,
           ''/proj/default.nix'' \<mapsto> ''import ./yarn-project.nix''),
       reports := [(Info, ''A minimal default.nix was created. You may want to customize it.'')]\<rparr>))"
    by (simp add: written_def report_def sample_world_def)
  from nt occ iso clean w(1) run show ?thesis by (simp add: cfg)
qed

subsection \<open>One isolated build for each devirtualized package (C2)\<close>

text \<open>Why an iteration throws.\<close>

lemma isolated_step_Inl_cause:
  assumes "isolated_step ext cfg proj entries key st = Some (Inl e)"
  shows "map_of (storedPackages proj) key = None \<or>
         (\<exists>pkg. matching cfg proj key = [pkg] \<and>
            (nodeLinker cfg \<noteq> ''pnp'' \<or>
             (isVirtualLocator ext pkg \<and>
                map_of (storedPackages proj) (devirtualizeLocator ext pkg) = None) \<or>
             (devirt_of ext proj pkg \<notin> set (isolatedPackages st) \<and>
                (\<exists>p \<in> reach ext proj pkg. dangling ext proj p))))"
proof (cases "map_of (storedPackages proj) key")
  case None
  then show ?thesis by simp
next
  case (Some pkg)
  from assms Some have m: "name pkg \<in> set (isolatedNixBuilds cfg)"
    by (auto simp: isolated_step_def split: if_splits)
  with Some have mt: "matching cfg proj key = [pkg]" by (simp add: matching_def)
  show ?thesis
  proof (cases "nodeLinker cfg \<noteq> ''pnp'' \<or>
                (isVirtualLocator ext pkg \<and>
                 map_of (storedPackages proj) (devirtualizeLocator ext pkg) = None)")
    case True
    with mt show ?thesis by blast
  next
    case False
    let ?d = "devirt_of ext proj pkg"
    from False have dv: "(if isVirtualLocator ext pkg then
                (case map_of (storedPackages proj) (devirtualizeLocator ext pkg) of
                   None \<Rightarrow> Some (Inl (Error ''Assertion failed: The locator should have been registered''))
                 | Some p \<Rightarrow> Some (Inr p))
              else Some (Inr pkg)) = Some (Inr ?d)"
      by (auto simp: devirt_of_def)
    from assms Some m False have new: "?d \<notin> set (isolatedPackages st)"
      and "and_then (and_then (collectTree ext proj entries pkg [])
                  (\<lambda>out. Some (Inr (st\<lparr>isolatedPackages := isolatedPackages st @ [?d],
                                        isolatedCode := isolatedCode st @
                                          [isolatedCode_entry ext pkg ?d (sort out)]\<rparr>))))
           (\<lambda>st1.
             Some (Inr (st1\<lparr>isolatedIntegration :=
               (if isolatedIntegration st1 = [] then [''# Copy in isolated builds.'']
                else isolatedIntegration st1)
               @ inject_lines ext cfg proj pkg ?d\<rparr>))) = Some (Inl e)"
      unfolding isolated_step_def by (auto simp: dv split: if_splits)
    then have "collectTree ext proj entries pkg [] = Some (Inl e)"
      by (cases "collectTree ext proj entries pkg []")
         (auto simp: and_then_def split: sum.splits)
    from collectTree_ok [OF this] have "\<exists>p \<in> reach ext proj pkg. dangling ext proj p"
      by (simp add: walk_ok_def)
    with new mt show ?thesis by blast
  qed
qed

lemma isolated_loop_Inl_cause:
  assumes "for_of keys (isolated_step ext cfg proj entries) st = Some (Inl e)"
  shows "(\<exists>key \<in> set keys. map_of (storedPackages proj) key = None) \<or>
         (nodeLinker cfg \<noteq> ''pnp'' \<and> concat (map (matching cfg proj) keys) \<noteq> []) \<or>
         (\<exists>pkg \<in> set (concat (map (matching cfg proj) keys)). isVirtualLocator ext pkg \<and>
            map_of (storedPackages proj) (devirtualizeLocator ext pkg) = None) \<or>
         (\<exists>pkg \<in> set (first_occurrences ext proj (isolatedPackages st)
                          (concat (map (matching cfg proj) keys))).
            \<exists>p \<in> reach ext proj pkg. dangling ext proj p)"
  using assms
proof (induction keys arbitrary: st)
  case Nil
  then show ?case by simp
next
  case (Cons key keys)
  let ?occs = "concat (map (matching cfg proj) keys)"
  from Cons.prems obtain r where r: "isolated_step ext cfg proj entries key st = Some r"
    by (cases "isolated_step ext cfg proj entries key st") auto
  show ?case
  proof (cases r)
    case (Inl e')
    with r Cons.prems have "isolated_step ext cfg proj entries key st = Some (Inl e)" by simp
    from isolated_step_Inl_cause [OF this] show ?thesis by auto
  next
    case (Inr st1)
    with r Cons.prems have tail: "for_of keys (isolated_step ext cfg proj entries) st1 = Some (Inl e)"
      by simp
    note ih = Cons.IH [OF tail]
    from isolated_step_Inr [OF r [unfolded Inr]] show ?thesis
    proof (elim disjE conjE exE)
      assume "matching cfg proj key = []" "map_of (storedPackages proj) key \<noteq> None" "st1 = st"
      with ih show ?thesis by auto
    next
      fix pkg
      assume m: "matching cfg proj key = [pkg]"
        and pk: "if devirt_of ext proj pkg \<in> set (isolatedPackages st)
             then isolatedPackages st1 = isolatedPackages st \<and> isolatedCode st1 = isolatedCode st
             else isolatedPackages st1 = isolatedPackages st @ [devirt_of ext proj pkg] \<and>
                  (\<exists>code. isolatedCode st1 = isolatedCode st @ [code] \<and>
                          built ext proj entries code pkg)"
      have sub: "set (first_occurrences ext proj (isolatedPackages st1) ?occs) \<subseteq>
                 set (first_occurrences ext proj (isolatedPackages st) (pkg # ?occs))"
        using pk by (auto split: if_splits)
      from ih consider
          (a) "\<exists>key \<in> set keys. map_of (storedPackages proj) key = None"
        | (b) "nodeLinker cfg \<noteq> ''pnp''" "?occs \<noteq> []"
        | (c) "\<exists>pkg \<in> set ?occs. isVirtualLocator ext pkg \<and>
                 map_of (storedPackages proj) (devirtualizeLocator ext pkg) = None"
        | (d) "\<exists>pkg \<in> set (first_occurrences ext proj (isolatedPackages st1) ?occs).
                 \<exists>p \<in> reach ext proj pkg. dangling ext proj p"
        by blast
      then show ?thesis
      proof cases
        case a
        then show ?thesis by simp
      next
        case b
        then show ?thesis by simp
      next
        case c
        then show ?thesis by auto
      next
        case d
        with sub have "\<exists>pkg' \<in> set (first_occurrences ext proj (isolatedPackages st) (pkg # ?occs)).
                 \<exists>p \<in> reach ext proj pkg'. dangling ext proj p"
          by blast
        with m show ?thesis by simp
      qed
    qed
  qed
qed

lemma isolated_returns:
  assumes ac: "acyclic (edges ext proj)"
    and con: "\<not> inconsistent ext cfg proj"
    and pnp: "nodeLinker cfg = ''pnp''"
  shows "\<exists>st. isolated ext cfg proj entries = Some (Inr st)"
proof -
  let ?loop = "for_of (map fst (storedBuildState proj)) (isolated_step ext cfg proj entries)
       \<lparr>isolatedPackages = [], isolatedIntegration = [], isolatedCode = []\<rparr>"
  from for_of_total [where body = "isolated_step ext cfg proj entries"
                       and xs = "map fst (storedBuildState proj)"]
    isolated_step_total [OF ac]
  obtain r where r: "?loop = Some r" by meson
  show ?thesis
  proof (cases r)
    case (Inl e)
    with r have "?loop = Some (Inl e)" by simp
    from isolated_loop_Inl_cause [OF this, folded occurrences_def] pnp
    have "inconsistent ext cfg proj" unfolding inconsistent_def by auto
    with con show ?thesis by simp
  next
    case (Inr st)
    with r show ?thesis by (simp add: isolated_def)
  qed
qed

text \<open>
  C2. When the loop over the build state returns, \<^verbatim>\<open>isolatedPackages\<close> holds each
  devirtualized package of a matching occurrence exactly once, \<^verbatim>\<open>isolatedCode\<close> holds one
  entry for each of them, in the same order, and \<^verbatim>\<open>isolatedIntegration\<close> holds the five
  lines of one injection step for every occurrence, each naming the attribute
  \<open>isolatedProp\<close> of its devirtualized package. The loop returns whenever the graph is
  acyclic and consistent and the linker is \<^verbatim>\<open>pnp\<close>.
\<close>

theorem one_build_per_devirtualized_package:
  "(isolated ext cfg proj entries = Some (Inr st) \<longrightarrow>
      distinct (isolatedPackages st) \<and>
      set (isolatedPackages st) = devirt_of ext proj ` set (occurrences cfg proj) \<and>
      list_all2 (\<lambda>code d. \<exists>pkg \<in> set (occurrences cfg proj).
                    devirt_of ext proj pkg = d \<and> built ext proj entries code pkg)
        (isolatedCode st) (isolatedPackages st) \<and>
      isolatedIntegration st =
        (if occurrences cfg proj = [] then []
         else ''# Copy in isolated builds.'' #
              concat (map (\<lambda>pkg. inject_lines ext cfg proj pkg (devirt_of ext proj pkg))
                        (occurrences cfg proj)) @
              [''echo '' @ [CHR 0x27] @ ''running yarn install'' @ [CHR 0x27]]) \<and>
      (\<forall>pkg \<in> set (occurrences cfg proj).
         inject_lines ext cfg proj pkg (devirt_of ext proj pkg) ! 3 =
           ''  ${'' @ isolatedProp ext (devirt_of ext proj pkg) @ ''} '' @ [CHR 0x5C])) \<and>
   (acyclic (edges ext proj) \<longrightarrow> \<not> inconsistent ext cfg proj \<longrightarrow> nodeLinker cfg = ''pnp'' \<longrightarrow>
      (\<exists>st. isolated ext cfg proj entries = Some (Inr st)))"
proof (intro conjI impI)
  assume run: "isolated ext cfg proj entries = Some (Inr st)"
  let ?occs = "occurrences cfg proj"
  let ?firsts = "first_occurrences ext proj [] ?occs"
  note t = isolated_targets [OF run]
  note fo = first_occurrences_props [of ext proj "[]" ?occs]
  from t fo show "distinct (isolatedPackages st)" by simp
  from t fo show "set (isolatedPackages st) = devirt_of ext proj ` set ?occs" by simp
  from run obtain st0 where
    loop: "for_of (map fst (storedBuildState proj)) (isolated_step ext cfg proj entries)
       \<lparr>isolatedPackages = [], isolatedIntegration = [], isolatedCode = []\<rparr> = Some (Inr st0)"
    and st: "st = (if isolatedIntegration st0 \<noteq> []
           then st0\<lparr>isolatedIntegration := isolatedIntegration st0 @
                     [''echo '' @ [CHR 0x27] @ ''running yarn install'' @ [CHR 0x27]]\<rparr>
           else st0)"
    by (rule isolated_Inr)
  from isolated_loop_Inr [OF loop, folded occurrences_def]
  have "list_all2 (built ext proj entries) (isolatedCode st0) ?firsts" by auto
  moreover from st have "isolatedCode st = isolatedCode st0" by (simp split: if_splits)
  ultimately have "list_all2 (\<lambda>code pkg. pkg \<in> set ?occs \<and> built ext proj entries code pkg)
                     (isolatedCode st) ?firsts"
    using fo by (auto simp: list_all2_conv_all_nth)
  then have "list_all2 (\<lambda>code d. \<exists>pkg \<in> set ?occs.
                       devirt_of ext proj pkg = d \<and> built ext proj entries code pkg)
           (isolatedCode st) (map (devirt_of ext proj) ?firsts)"
    by (auto simp: list_all2_conv_all_nth)
  with t show "list_all2 (\<lambda>code d. \<exists>pkg \<in> set ?occs.
                       devirt_of ext proj pkg = d \<and> built ext proj entries code pkg)
           (isolatedCode st) (isolatedPackages st)"
    by simp
  show "isolatedIntegration st =
        (if ?occs = [] then []
         else ''# Copy in isolated builds.'' #
              concat (map (\<lambda>pkg. inject_lines ext cfg proj pkg (devirt_of ext proj pkg)) ?occs) @
              [''echo '' @ [CHR 0x27] @ ''running yarn install'' @ [CHR 0x27]])"
    by (rule isolated_integration [OF run])
  show "\<forall>pkg \<in> set ?occs.
         inject_lines ext cfg proj pkg (devirt_of ext proj pkg) ! 3 =
           ''  ${'' @ isolatedProp ext (devirt_of ext proj pkg) @ ''} '' @ [CHR 0x5C]"
    by (simp add: inject_lines_def)
next
  assume "acyclic (edges ext proj)" "\<not> inconsistent ext cfg proj" "nodeLinker cfg = ''pnp''"
  then show "\<exists>st. isolated ext cfg proj entries = Some (Inr st)" by (rule isolated_returns)
qed

lemma native_acyclic: "acyclic (edges sample_ext native_project)"
  by (rule acyclic_edges_rank
       [where rk = "\<lambda>p. if name p = ''app'' then 3
                        else if startsWith (reference p) ''virtual:'' then 2
                        else if name p = ''native-lib'' then 1 else 0"])
     (simp add: native_project_def sample_defs)

text \<open>The two virtual instances of \<open>native-lib\<close> are built once, as \<open>native-lib@npm:2\<close>,
  and injected twice.\<close>

theorem one_build_per_devirtualized_package_witness:
  "acyclic (edges sample_ext native_project) \<and>
   \<not> inconsistent sample_ext sample_cfg native_project \<and>
   nodeLinker sample_cfg = ''pnp'' \<and>
   isolated sample_ext sample_cfg native_project native_entries = Some (Inr native_state) \<and>
   occurrences sample_cfg native_project =
     [mk_pkg ''native-lib'' ''virtual:w1#npm:2'' [''zlib''],
      mk_pkg ''native-lib'' ''virtual:w2#npm:2'' [''zlib'']] \<and>
   distinct (isolatedPackages native_state) \<and>
   length (isolatedCode native_state) = 1 \<and>
   length (isolatedIntegration native_state) = 1 + 2 * 5 + 1"
proof -
  have occs: "occurrences sample_cfg native_project =
     [mk_pkg ''native-lib'' ''virtual:w1#npm:2'' [''zlib''],
      mk_pkg ''native-lib'' ''virtual:w2#npm:2'' [''zlib'']]"
    by (simp add: occurrences_def matching_def native_project_def sample_cfg_def sample_defs)
  have con: "\<not> inconsistent sample_ext sample_cfg native_project"
    using native_run by (rule isolated_consistent)
  have pnp: "nodeLinker sample_cfg = ''pnp''" by (simp add: sample_cfg_def)
  from one_build_per_devirtualized_package
         [of sample_ext sample_cfg native_project native_entries native_state] native_run
  have "distinct (isolatedPackages native_state)" by blast
  with native_run occs native_acyclic con pnp show ?thesis by (simp add: native_state_def)
qed

end
